theory Spec2Isabelle
  imports Main "HOL-Library.Word" "HOL-Library.Monad_Syntax"
begin

section \<open>Dense vectors and matrices\<close>

text \<open>
  The scalar type of the library is a template parameter (\<^verbatim>\<open>Scalar\<close>, a double in
  practice). It stays a type variable \<open>'s\<close> here; where the code computes with scalars
  only the operations themselves are required (\<open>zero\<close>, \<open>one\<close>, \<open>times\<close>,
  \<open>uminus\<close>), no law of arithmetic, so nothing below depends on how the scalars round.

  \<^verbatim>\<open>VectorXs\<close> is a list of coefficients, \<^verbatim>\<open>MatrixXs\<close> records its two
  dimensions and its rows. Assigning to a dynamic vector or matrix replaces it, size
  included.
\<close>

type_synonym 's VectorXs = "'s list"

record 's MatrixXs =
  mrows :: nat
  mcols :: nat
  coeff :: "'s list list"

definition Zero_mat :: "nat \<Rightarrow> nat \<Rightarrow> ('s::zero) MatrixXs" where
  "Zero_mat nr ncl = \<lparr>mrows = nr, mcols = ncl, coeff = replicate nr (replicate ncl 0)\<rparr>"

definition Zero_vec :: "nat \<Rightarrow> ('s::zero) VectorXs" where
  "Zero_vec n = replicate n 0"

definition Identity :: "nat \<Rightarrow> nat \<Rightarrow> ('s::{zero,one}) MatrixXs" where
  "Identity nr ncl =
     \<lparr>mrows = nr, mcols = ncl,
      coeff = map (\<lambda>i. map (\<lambda>j. if i = j then 1 else 0) [0..<ncl]) [0..<nr]\<rparr>"

definition transpose_mat :: "'s MatrixXs \<Rightarrow> 's MatrixXs" where
  "transpose_mat m =
     \<lparr>mrows = mcols m, mcols = mrows m,
      coeff = map (\<lambda>j. map (\<lambda>i. coeff m ! i ! j) [0..<mrows m]) [0..<mcols m]\<rparr>"

definition smult :: "('s::times) \<Rightarrow> 's MatrixXs \<Rightarrow> 's MatrixXs" where
  "smult c m = m\<lparr>coeff := map (map (\<lambda>x. c * x)) (coeff m)\<rparr>"

text \<open>The empty matrix, what a default-constructed \<^verbatim>\<open>MatrixXs\<close> is.\<close>

definition empty_mat :: "'s MatrixXs" where
  "empty_mat = \<lparr>mrows = 0, mcols = 0, coeff = []\<rparr>"

section \<open>The LQ knot and the LQ problem\<close>

text \<open>
  Modelled from the spec: \<^verbatim>\<open>LQRKnotTpl\<close> and \<^verbatim>\<open>LQRProblemTpl\<close> are declared in
  \<^verbatim>\<open>aligator/gar/lqr-problem.hpp\<close>, which is not among the sources. The data model of
  the spec gives a knot its dimensions \<open>(nx, nu, nc, nth)\<close>, the cost blocks
  \<open>Q, R, S, q, r\<close>, the dynamics \<open>A, B, E, f\<close>, the constraint blocks \<open>C, D, d\<close> and the
  parameterization \<open>Gx, Gu, Gamma, gamma\<close>. The one-letter blocks and \<open>nth\<close> carry the
  suffix \<open>_k\<close> so that they do not take the names of variables or of the list library.
\<close>

record 's LQRKnot =
  nx :: nat
  nu :: nat
  nc :: nat
  nth_k :: nat
  Q_k :: "'s MatrixXs"
  R_k :: "'s MatrixXs"
  S_k :: "'s MatrixXs"
  q_k :: "'s VectorXs"
  r_k :: "'s VectorXs"
  A_k :: "'s MatrixXs"
  B_k :: "'s MatrixXs"
  E_k :: "'s MatrixXs"
  f_k :: "'s VectorXs"
  C_k :: "'s MatrixXs"
  D_k :: "'s MatrixXs"
  d_k :: "'s VectorXs"
  Gx :: "'s MatrixXs"
  Gu :: "'s MatrixXs"
  Gamma :: "'s MatrixXs"
  gamma :: "'s VectorXs"

text \<open>
  Modelled from the spec: \<^verbatim>\<open>LQRKnotTpl::addParameterization\<close> (section 4.1:
  ``allocates \<open>Gx, Gu\<close> and sizes \<open>nth\<close>''; section 3: the parameterization blocks are
  ``of size \<open>nth \<times> *\<close>''). The allocated blocks are taken zero-filled.
\<close>

definition addParameterization :: "nat \<Rightarrow> ('s::zero) LQRKnot \<Rightarrow> 's LQRKnot" where
  "addParameterization n knot =
     knot\<lparr>nth_k := n, Gx := Zero_mat n (nx knot), Gu := Zero_mat n (nu knot)\<rparr>"

text \<open>
  Modelled from the spec: the LQ problem is ``initial constraint \<open>(G0, g0)\<close> of row-count
  \<open>nc0\<close>, ordered vector of knots''; its knots are indexed \<open>0..N\<close> where \<open>N\<close> is the
  horizon. The problem-wide \<^verbatim>\<open>addParameterization\<close>, called by the test
  \<^verbatim>\<open>BOOST_AUTO_TEST_CASE(problem)\<close> of \<^verbatim>\<open>tests/gar/knot.cpp\<close>, parameterizes every
  knot.
\<close>

record 's LQRProblem =
  G0 :: "'s MatrixXs"
  g0 :: "'s VectorXs"
  stages :: "'s LQRKnot list"

definition nc0 :: "'s LQRProblem \<Rightarrow> nat" where
  "nc0 p = length (g0 p)"

definition horizon :: "'s LQRProblem \<Rightarrow> int" where
  "horizon p = int (length (stages p)) - 1"

definition addParameterization_problem :: "nat \<Rightarrow> ('s::zero) LQRProblem \<Rightarrow> 's LQRProblem" where
  "addParameterization_problem n p = p\<lparr>stages := map (addParameterization n) (stages p)\<rparr>"

section \<open>The trajectory optimization problem: the initial state\<close>

text \<open>
  \<^verbatim>\<open>TrajOptProblemTpl\<close> (its members end in an underscore in the source, written
  \<open>_m\<close> here). The stage models, costs and constraint stacks are opaque for the two
  accessors below, so they stay type parameters. \<open>init_state_error_m\<close> is the raw pointer
  \<^verbatim>\<open>StateErrorResidual *init_state_error_\<close>: \<open>None\<close> is \<^verbatim>\<open>nullptr\<close>, \<open>Some r\<close> is the
  residual the pointer refers to. \<^verbatim>\<open>ALIGATOR_RUNTIME_ERROR\<close> throws a runtime error
  with the given message (which ends with a line feed).
\<close>

datatype error = RuntimeError string | UndefinedBehaviour

definition not_state_error_msg :: string where
  "not_state_error_msg = ''Initial condition is not a StateErrorResidual.'' @ [CHR 0x0A]"

record 's StateErrorResidual =
  target_m :: "'s VectorXs"

record ('s, 'fn, 'stage, 'cost, 'cstrs) TrajOptProblem =
  init_constraint_m :: 'fn
  stages_m :: "'stage list"
  term_cost_m :: 'cost
  term_cstrs_m :: 'cstrs
  unone_m :: "'s VectorXs"
  init_state_error_m :: "'s StateErrorResidual option"

definition initCondIsStateError :: "('s, 'fn, 'stage, 'cost, 'cstrs) TrajOptProblem \<Rightarrow> bool" where
  "initCondIsStateError p = (init_state_error_m p \<noteq> None)"

definition getInitState ::
  "('s, 'fn, 'stage, 'cost, 'cstrs) TrajOptProblem \<Rightarrow> error + 's VectorXs" where
  "getInitState p =
     (if \<not> initCondIsStateError p
      then Inl (RuntimeError not_state_error_msg)
      else case init_state_error_m p of
             Some res \<Rightarrow> Inr (target_m res)
           | None \<Rightarrow> Inl UndefinedBehaviour)"

definition setInitState ::
  "'s VectorXs \<Rightarrow> ('s, 'fn, 'stage, 'cost, 'cstrs) TrajOptProblem
     \<Rightarrow> error + ('s, 'fn, 'stage, 'cost, 'cstrs) TrajOptProblem" where
  "setInitState x0 p =
     (if \<not> initCondIsStateError p
      then Inl (RuntimeError not_state_error_msg)
      else case init_state_error_m p of
             Some res \<Rightarrow> Inr (p\<lparr>init_state_error_m := Some (res\<lparr>target_m := x0\<rparr>)\<rparr>)
           | None \<Rightarrow> Inl UndefinedBehaviour)"

section \<open>Warm-start check of the solvers\<close>

text \<open>
  \<^verbatim>\<open>solver-base.hpp\<close>. A manifold is used through its neutral element only, a stage
  model through its three spaces. Modelled from the spec: \<^verbatim>\<open>numSteps\<close>, declared in the
  problem header and defined elsewhere, is the number \<open>N\<close> of stages.
  \<^verbatim>\<open>proxddp_runtime_error\<close> throws a runtime error with the given message. Calling
  \<^verbatim>\<open>back()\<close> on an empty \<^verbatim>\<open>std::vector\<close> is undefined behaviour.
\<close>

record 's Manifold =
  neutral :: "'s VectorXs"

record 's StageModel =
  xspace :: "'s Manifold"
  uspace :: "'s Manifold"
  xspace_next :: "'s Manifold"

definition numSteps :: "('s, 'fn, 'stage, 'cost, 'cstrs) TrajOptProblem \<Rightarrow> nat" where
  "numSteps p = length (stages_m p)"

text \<open>\<^verbatim>\<open>std::vector::resize\<close>: the first elements are kept, new ones are default-constructed.\<close>

definition resize_vec :: "nat \<Rightarrow> 'a \<Rightarrow> 'a list \<Rightarrow> 'a list" where
  "resize_vec n dflt xs = take n xs @ replicate (n - length xs) dflt"

text \<open>
  In both loops the index \<open>i\<close> stays below \<open>nsteps\<close>, the size of \<open>stages_\<close>, and below the
  size the vector was just resized to.
\<close>

definition xs_default_init ::
  "('s, 'fn, 's StageModel, 'cost, 'cstrs) TrajOptProblem \<Rightarrow> 's VectorXs list
     \<Rightarrow> error + 's VectorXs list" where
  "xs_default_init p xs =
     (let nsteps = numSteps p;
          xs1 = resize_vec (nsteps + 1) [] xs;
          xs2 = fold (\<lambda>i ys. ys[i := neutral (xspace (stages_m p ! i))]) [0..<nsteps] xs1
      in if stages_m p = [] then Inl UndefinedBehaviour
         else Inr (xs2[nsteps := neutral (xspace_next (last (stages_m p)))]))"

definition us_default_init ::
  "('s, 'fn, 's StageModel, 'cost, 'cstrs) TrajOptProblem \<Rightarrow> 's VectorXs list
     \<Rightarrow> error + 's VectorXs list" where
  "us_default_init p us =
     (let nsteps = numSteps p;
          us1 = resize_vec nsteps [] us
      in Inr (fold (\<lambda>i ys. ys[i := neutral (uspace (stages_m p ! i))]) [0..<nsteps] us1))"

definition checkTrajectoryAndAssign ::
  "('s, 'fn, 's StageModel, 'cost, 'cstrs) TrajOptProblem
     \<Rightarrow> 's VectorXs list \<Rightarrow> 's VectorXs list \<Rightarrow> 's VectorXs list \<Rightarrow> 's VectorXs list
     \<Rightarrow> error + ('s VectorXs list \<times> 's VectorXs list)" where
  "checkTrajectoryAndAssign p xs_init us_init xs_out us_out =
     (let nsteps = numSteps p;
          xs_out1 = resize_vec (nsteps + 1) [] xs_out;
          us_out1 = resize_vec nsteps [] us_out
      in case (if length xs_init = 0 then xs_default_init p xs_out1
               else if length xs_init \<noteq> nsteps + 1
                    then Inl (RuntimeError ''warm-start for xs has wrong size!'')
                    else Inr xs_init) of
           Inl e \<Rightarrow> Inl e
         | Inr xs_out2 \<Rightarrow>
             (case (if length us_init = 0 then us_default_init p us_out1
                    else if length us_init \<noteq> nsteps
                         then Inl (RuntimeError ''warm-start for us has wrong size!'')
                         else Inr us_init) of
                Inl e \<Rightarrow> Inl e
              | Inr us_out2 \<Rightarrow> Inr (xs_out2, us_out2)))"

section \<open>The Python binding of the constraint proximal scaler\<close>

text \<open>
  Modelled from the spec: \<^verbatim>\<open>ConstraintProximalScalerTpl\<close> is not among the sources.
  Section 4.5 gives it one weight per constraint block, \<open>setWeight(j, v)\<close> and
  \<open>setWeights(w)\<close>; the invariants of section 8 want \<open>size()\<close> constant. So the number
  of blocks is a field of its own and \<open>setWeights\<close> stores the vector it is given.
\<close>

record 's ProxScaler =
  num_blocks :: nat
  weights :: "'s VectorXs"

definition size_scaler :: "'s ProxScaler \<Rightarrow> nat" where
  "size_scaler s = num_blocks s"

definition setWeight :: "'s \<Rightarrow> nat \<Rightarrow> 's ProxScaler \<Rightarrow> 's ProxScaler" where
  "setWeight v j s = s\<lparr>weights := (weights s)[j := v]\<rparr>"

definition setWeights :: "'s VectorXs \<Rightarrow> 's ProxScaler \<Rightarrow> 's ProxScaler" where
  "setWeights w s = s\<lparr>weights := w\<rparr>"

text \<open>
  The two lambdas of \<^verbatim>\<open>expose-solver-prox.cpp\<close>. \<^verbatim>\<open>PyErr_SetString\<close> sets the error
  indicator of the interpreter and returns; \<^verbatim>\<open>bp::throw_error_already_set\<close> throws,
  which ends the lambda. A lambda that ends by the throw is \<open>Inl\<close> of the exception; one
  that runs to its end is \<open>Inr\<close> of the error indicator it leaves and of the scaler.
\<close>

datatype py_exception = IndexError string | ValueError string

definition set_weight_binding ::
  "'s ProxScaler \<Rightarrow> 's \<Rightarrow> nat \<Rightarrow> py_exception + (py_exception option \<times> 's ProxScaler)" where
  "set_weight_binding s v j =
     (if j \<ge> size_scaler s then Inl (IndexError ''Index out of bounds.'')
      else Inr (None, setWeight v j s))"

definition setWeights_binding ::
  "'s ProxScaler \<Rightarrow> 's VectorXs \<Rightarrow> py_exception + (py_exception option \<times> 's ProxScaler)" where
  "setWeights_binding s w =
     (let indicator = (if size_scaler s \<noteq> length w
                       then Some (ValueError ''Input has wrong dimension.'') else None)
      in Inr (indicator, setWeights w s))"

section \<open>The parallel-condensing Riccati solver\<close>

subsection \<open>Vectors, spans and loops that can go wrong\<close>

text \<open>
  The functions of \<^verbatim>\<open>ParallelRiccatiSolver\<close> index \<^verbatim>\<open>std::vector\<close>s without a
  check: an index outside the vector is undefined behaviour, and a failed \<^verbatim>\<open>assert\<close>
  aborts. Both are the value \<open>None\<close> of the functions below; \<open>Some\<close> is a normal return.
  The variables of type \<^verbatim>\<open>uint\<close> are 32-bit words (their arithmetic wraps), and are read
  by \<open>unat\<close> where they index a vector or are compared to a \<^verbatim>\<open>size_t\<close>.
\<close>

definition at_vec :: "'a list \<Rightarrow> nat \<Rightarrow> 'a option" where
  "at_vec xs i = (if i < length xs then Some (xs ! i) else None)"

definition set_vec :: "'a list \<Rightarrow> nat \<Rightarrow> 'a \<Rightarrow> 'a list option" where
  "set_vec xs i v = (if i < length xs then Some (xs[i := v]) else None)"

definition assert_that :: "bool \<Rightarrow> unit option" where
  "assert_that b = (if b then Some () else None)"

text \<open>
  \<^verbatim>\<open>make_span_from_indices\<close> is a view of the elements \<open>i0..i1-1\<close> of a vector; it is
  read here as a copy, and \<open>write_span\<close> puts back what the callee left in the view.
\<close>

definition make_span_from_indices :: "'a list \<Rightarrow> nat \<Rightarrow> nat \<Rightarrow> 'a list option" where
  "make_span_from_indices vec i0 i1 =
     (if i0 \<le> i1 \<and> i1 \<le> length vec then Some (take (i1 - i0) (drop i0 vec)) else None)"

definition write_span :: "'a list \<Rightarrow> nat \<Rightarrow> 'a list \<Rightarrow> 'a list" where
  "write_span vec i0 view = take i0 vec @ view @ drop (i0 + length view) vec"

text \<open>A \<^verbatim>\<open>for\<close> loop over the indices \<open>xs\<close> whose body can fail.\<close>

fun foldM :: "('a \<Rightarrow> 'b \<Rightarrow> 'b option) \<Rightarrow> 'a list \<Rightarrow> 'b \<Rightarrow> 'b option" where
  "foldM body [] s = Some s"
| "foldM body (x # xs) s = (case body x s of None \<Rightarrow> None | Some s' \<Rightarrow> foldM body xs s')"

subsection \<open>Stage factors and the solver object\<close>

text \<open>
  Modelled from the spec: \<^verbatim>\<open>StageFactor\<close> is declared in \<^verbatim>\<open>riccati-impl.hpp\<close>, which
  is not among the sources. Section 3 gives it the value-function blocks \<open>Pmat\<close>
  (\<open>nx \<times> nx\<close>), \<open>pvec\<close> (\<open>nx\<close>), \<open>Vtt\<close> (\<open>nth \<times> nth\<close>), \<open>Vxt\<close> (\<open>nx \<times> nth\<close>), \<open>vt\<close> (\<open>nth\<close>), the
  feedback gain \<open>K\<close> (\<open>nu \<times> nx\<close>) and the feedforward \<open>k\<close> (\<open>nu\<close>). The dual feedbacks and
  the scratch factorization, which nothing below reads, are left out.
\<close>

record 's value_t =
  Pmat :: "'s MatrixXs"
  pvec :: "'s VectorXs"
  Vtt :: "'s MatrixXs"
  Vxt :: "'s MatrixXs"
  vt :: "'s VectorXs"

record 's StageFactor =
  vm :: "'s value_t"
  K_fb :: "'s MatrixXs"
  k_ff :: "'s VectorXs"

definition StageFactor_new :: "nat \<Rightarrow> nat \<Rightarrow> nat \<Rightarrow> nat \<Rightarrow> ('s::zero) StageFactor" where
  "StageFactor_new n_x n_u n_c n_th =
     \<lparr>vm = \<lparr>Pmat = Zero_mat n_x n_x, pvec = Zero_vec n_x, Vtt = Zero_mat n_th n_th,
             Vxt = Zero_mat n_x n_th, vt = Zero_vec n_th\<rparr>,
      K_fb = Zero_mat n_u n_x, k_ff = Zero_vec n_u\<rparr>"

record 's condensed_system_t =
  subdiagonal :: "'s MatrixXs list"
  diagonal :: "'s MatrixXs list"
  superdiagonal :: "'s MatrixXs list"

text \<open>
  The solver holds a reference to the problem and writes to its knots through
  \<^verbatim>\<open>const_cast\<close>; the field \<open>problem\<close> is the problem referred to. Modelled from the
  spec: \<^verbatim>\<open>BlkVec\<close> (\<^verbatim>\<open>BlkMatrix\<close> is not among the sources) is a vector cut in blocks,
  here the list of its blocks; \<open>BlkVec dims\<close> has one block per entry of \<open>dims\<close>, and
  assigning to block \<open>i\<close> stores the block.
\<close>

type_synonym 's BlkVec = "'s VectorXs list"

definition BlkVec :: "nat list \<Rightarrow> ('s::zero) BlkVec" where
  "BlkVec dims = map Zero_vec dims"

record 's ParallelRiccatiSolver =
  datas :: "'s StageFactor list"
  numLegs :: "32 word"
  splitIdx :: "32 word list"
  condensedKktSystem :: "'s condensed_system_t"
  condensedKktRhs :: "'s BlkVec"
  problem :: "'s LQRProblem"

subsection \<open>Construction\<close>

text \<open>The loop of \<open>checkIndices\<close>, which returns at the first pair that is out of order.\<close>

fun checkIndices_loop :: "32 word list \<Rightarrow> nat list \<Rightarrow> bool" where
  "checkIndices_loop sidx [] = True"
| "checkIndices_loop sidx (i # rest) =
     (if sidx ! i \<ge> sidx ! (i + 1) then False else checkIndices_loop sidx rest)"

text \<open>
  \<open>splitIdx\<close> has \<open>numLegs + 1\<close> entries from the constructor on, which keeps the reads of
  \<open>checkIndices\<close> inside the vector.
\<close>

definition checkIndices :: "'s ParallelRiccatiSolver \<Rightarrow> bool" where
  "checkIndices s =
     (if splitIdx s ! 0 \<noteq> 0 then False
      else checkIndices_loop (splitIdx s) [0..<unat (numLegs s)])"

text \<open>
  \<open>buildLeg_knot\<close> is the body of the loop of \<open>buildLeg\<close>: the knot at \<open>t\<close> is
  parameterized in place unless the leg is the last, and a stage factor of its
  dimensions is appended to \<open>datas\<close>. \<open>end - 1\<close> is computed in \<^verbatim>\<open>uint\<close>.
\<close>

definition buildLeg_knot ::
  "bool \<Rightarrow> nat \<Rightarrow> ('s::zero) ParallelRiccatiSolver \<Rightarrow> 's ParallelRiccatiSolver option" where
  "buildLeg_knot last_leg t s = do {
     knot \<leftarrow> at_vec (stages (problem s)) t;
     knot' \<leftarrow> (if \<not> last_leg
               then do {
                 let k1 = addParameterization (nx knot) knot;
                 _ \<leftarrow> assert_that (nx k1 = nth_k k1);
                 Some k1 }
               else Some knot);
     Some (s\<lparr>problem := (problem s)\<lparr>stages := (stages (problem s))[t := knot']\<rparr>,
             datas := datas s @ [StageFactor_new (nx knot') (nu knot') (nc knot') (nth_k knot')]\<rparr>)
   }"

definition buildLeg ::
  "32 word \<Rightarrow> 32 word \<Rightarrow> bool \<Rightarrow> ('s::zero) ParallelRiccatiSolver
     \<Rightarrow> 's ParallelRiccatiSolver option" where
  "buildLeg start end last_leg s = do {
     s1 \<leftarrow> foldM (buildLeg_knot last_leg) [unat start..<unat end] s;
     if \<not> last_leg
     then do {
       knot \<leftarrow> at_vec (stages (problem s1)) (unat (end - 1));
       Some (s1\<lparr>problem := (problem s1)\<lparr>stages := (stages (problem s1))
               [unat (end - 1) := knot\<lparr>Gx := transpose_mat (A_k knot),
                                        Gu := transpose_mat (B_k knot),
                                        gamma := f_k knot\<rparr>]\<rparr>\<rparr>) }
     else Some s1
   }"

text \<open>The member initialisers and the two assignments to \<open>splitIdx\<close>.\<close>

definition init_solver ::
  "'s LQRProblem \<Rightarrow> 32 word \<Rightarrow> 's ParallelRiccatiSolver option" where
  "init_solver prob num_legs = do {
     let N = (word_of_int (horizon prob) :: 32 word);
     sidx \<leftarrow> foldM (\<lambda>i sidx. set_vec sidx i (of_nat i * (N + 1) div num_legs))
               [0..<unat num_legs] (replicate (unat (num_legs + 1)) 0);
     sidx \<leftarrow> set_vec sidx (unat num_legs) (N + 1);
     Some \<lparr>datas = [], numLegs = num_legs, splitIdx = sidx,
           condensedKktSystem = \<lparr>subdiagonal = [], diagonal = [], superdiagonal = []\<rparr>,
           condensedKktRhs = [], problem = prob\<rparr>
   }"

text \<open>The loop of the constructor over the legs, and the constructor with its two assertions.\<close>

definition build_legs ::
  "32 word \<Rightarrow> ('s::zero) ParallelRiccatiSolver \<Rightarrow> 's ParallelRiccatiSolver option" where
  "build_legs num_legs s0 =
     foldM (\<lambda>i s. do {
              start \<leftarrow> at_vec (splitIdx s) i;
              end \<leftarrow> at_vec (splitIdx s) (i + 1);
              buildLeg start end (of_nat i = num_legs - 1) s })
       [0..<unat num_legs] s0"

definition ParallelRiccatiSolver ::
  "('s::zero) LQRProblem \<Rightarrow> 32 word \<Rightarrow> 's ParallelRiccatiSolver option" where
  "ParallelRiccatiSolver prob num_legs = do {
     s0 \<leftarrow> init_solver prob num_legs;
     s \<leftarrow> build_legs num_legs s0;
     _ \<leftarrow> assert_that (length (datas s) = unat ((word_of_int (horizon prob) :: 32 word) + 1));
     _ \<leftarrow> assert_that (checkIndices s);
     Some s
   }"

subsection \<open>The backward pass and the condensed system\<close>

text \<open>
  One turn of the first loop of \<open>assembleCondensedSystem\<close>, on the diagonal, the
  superdiagonal and the block sizes of the right-hand side. \<open>2 * ip1\<close> is computed in
  \<^verbatim>\<open>size_t\<close>, \<open>i1 - 1\<close> in \<^verbatim>\<open>uint\<close>.
\<close>

definition assemble_leg ::
  "'s ParallelRiccatiSolver \<Rightarrow> nat
     \<Rightarrow> 's MatrixXs list \<times> 's MatrixXs list \<times> nat list
     \<Rightarrow> ('s MatrixXs list \<times> 's MatrixXs list \<times> nat list) option" where
  "assemble_leg s i = (\<lambda>(dg, sup, dims). do {
     i0 \<leftarrow> at_vec (splitIdx s) i;
     i1 \<leftarrow> at_vec (splitIdx s) (i + 1);
     let ip1 = i + 1;
     data0 \<leftarrow> at_vec (datas s) (unat i0);
     dg \<leftarrow> set_vec dg (2 * ip1) (Vtt (vm data0));
     knot0 \<leftarrow> at_vec (stages (problem s)) (unat i0);
     knot1m \<leftarrow> at_vec (stages (problem s)) (unat (i1 - 1));
     let dims = dims @ [nx knot0, nth_k knot1m];
     data1 \<leftarrow> at_vec (datas s) (unat i1);
     dg \<leftarrow> set_vec dg (2 * ip1 + 1) (Pmat (vm data1));
     knot1 \<leftarrow> at_vec (stages (problem s)) (unat i1);
     sup \<leftarrow> set_vec sup (2 * ip1) (E_k knot1);
     sup \<leftarrow> (if ip1 + 1 < unat (numLegs s)
              then set_vec sup (2 * ip1 + 1) (Vxt (vm data1)) else Some sup);
     Some (dg, sup, dims)
   })"

text \<open>One turn of the loop that fills the right-hand side.\<close>

definition assemble_rhs_leg ::
  "'s ParallelRiccatiSolver \<Rightarrow> nat \<Rightarrow> 's BlkVec \<Rightarrow> 's BlkVec option" where
  "assemble_rhs_leg s i rhs = do {
     i0 \<leftarrow> at_vec (splitIdx s) i;
     i1 \<leftarrow> at_vec (splitIdx s) (i + 1);
     let ip1 = i + 1;
     data0 \<leftarrow> at_vec (datas s) (unat i0);
     rhs \<leftarrow> set_vec rhs (2 * ip1) (vt (vm data0));
     data1 \<leftarrow> at_vec (datas s) (unat i1);
     set_vec rhs (2 * ip1 + 1) (pvec (vm data1))
   }"

definition assembleCondensedSystem ::
  "('s::{zero,one,times,uminus}) \<Rightarrow> 's ParallelRiccatiSolver
     \<Rightarrow> 's ParallelRiccatiSolver option" where
  "assembleCondensedSystem mudyn s = do {
     let sub = resize_vec (unat (2 * numLegs s - 1)) empty_mat
                 (subdiagonal (condensedKktSystem s));
     let dg = resize_vec (unat (2 * numLegs s)) empty_mat
                 (diagonal (condensedKktSystem s));
     let sup = resize_vec (unat (2 * numLegs s - 1)) empty_mat
                 (superdiagonal (condensedKktSystem s));
     let n0 = nc0 (problem s);
     dg \<leftarrow> set_vec dg 0 (smult (- mudyn) (Identity n0 n0));
     sup \<leftarrow> set_vec sup 0 (G0 (problem s));
     data0 \<leftarrow> at_vec (datas s) 0;
     dg \<leftarrow> set_vec dg 1 (Pmat (vm data0));
     sup \<leftarrow> set_vec sup 1 (Vxt (vm data0));
     knot0 \<leftarrow> at_vec (stages (problem s)) 0;
     let dims = [nc0 (problem s), nx knot0];
     (dg, sup, dims) \<leftarrow> foldM (assemble_leg s) [0..<unat (numLegs s - 1)] (dg, sup, dims);
     sub \<leftarrow> foldM (\<lambda>i sub. do {
                     m \<leftarrow> at_vec sup i;
                     set_vec sub i (transpose_mat m) })
              [0..<length sub] sub;
     _ \<leftarrow> assert_that (length dims = length dg);
     let rhs = BlkVec dims;
     rhs \<leftarrow> set_vec rhs 0 (g0 (problem s));
     rhs \<leftarrow> set_vec rhs 1 (pvec (vm data0));
     rhs \<leftarrow> foldM (assemble_rhs_leg s) [0..<unat (numLegs s - 1)] rhs;
     let rhs = map (map (\<lambda>x. x * (- 1))) rhs;
     Some (s\<lparr>condensedKktSystem :=
               \<lparr>subdiagonal = sub, diagonal = dg, superdiagonal = sup\<rparr>,
             condensedKktRhs := rhs\<rparr>)
   }"

text \<open>
  \<^verbatim>\<open>Impl::backwardImpl\<close> and \<^verbatim>\<open>symmetric_block_tridiagonal_solve\<close> are not among the
  sources; \<open>backward\<close> takes them as parameters. \<open>backwardImpl\<close> gets the knots of a leg
  (read-only), \<open>mudyn\<close>, \<open>mueq\<close> and the stage factors of the leg, and returns its flag and
  the stage factors as it leaves them. The solve gets the three diagonals and the
  right-hand side by reference and returns its flag and what it leaves in them. The legs
  are taken in the order of the loop.
\<close>

type_synonym 's backwardImpl_t =
  "'s LQRKnot list \<Rightarrow> 's \<Rightarrow> 's \<Rightarrow> 's StageFactor list \<Rightarrow> bool \<times> 's StageFactor list"

type_synonym 's tridiagonal_solve_t =
  "'s MatrixXs list \<Rightarrow> 's MatrixXs list \<Rightarrow> 's MatrixXs list \<Rightarrow> 's BlkVec
     \<Rightarrow> bool \<times> 's MatrixXs list \<times> 's MatrixXs list \<times> 's MatrixXs list \<times> 's BlkVec"

definition backward_leg ::
  "'s backwardImpl_t \<Rightarrow> 's \<Rightarrow> 's \<Rightarrow> nat \<Rightarrow> bool \<times> 's ParallelRiccatiSolver
     \<Rightarrow> (bool \<times> 's ParallelRiccatiSolver) option" where
  "backward_leg backwardImpl mudyn mueq i = (\<lambda>(ret, s). do {
     i0 \<leftarrow> at_vec (splitIdx s) i;
     i1 \<leftarrow> at_vec (splitIdx s) (i + 1);
     stview \<leftarrow> make_span_from_indices (stages (problem s)) (unat i0) (unat i1);
     dtview \<leftarrow> make_span_from_indices (datas s) (unat i0) (unat i1);
     let (r, dtview') = backwardImpl stview mudyn mueq dtview;
     Some (ret \<and> r, s\<lparr>datas := write_span (datas s) (unat i0) dtview'\<rparr>)
   })"

definition backward ::
  "('s::{zero,one,times,uminus}) backwardImpl_t \<Rightarrow> 's tridiagonal_solve_t \<Rightarrow> 's \<Rightarrow> 's
     \<Rightarrow> 's ParallelRiccatiSolver \<Rightarrow> (bool \<times> 's ParallelRiccatiSolver) option" where
  "backward backwardImpl solve mudyn mueq s = do {
     (ret, s1) \<leftarrow> foldM (backward_leg backwardImpl mudyn mueq)
                    [0..<unat (numLegs s)] (True, s);
     s2 \<leftarrow> assembleCondensedSystem mudyn s1;
     let (solved, sub, dg, sup, rhs) =
           solve (subdiagonal (condensedKktSystem s2)) (diagonal (condensedKktSystem s2))
                 (superdiagonal (condensedKktSystem s2)) (condensedKktRhs s2);
     Some (True, s2\<lparr>condensedKktSystem :=
                      \<lparr>subdiagonal = sub, diagonal = dg, superdiagonal = sup\<rparr>,
                    condensedKktRhs := rhs\<rparr>)
   }"

subsection \<open>The forward pass\<close>







section \<open>Notions used to state the results\<close>

text \<open>
  The entries the constructor writes to \<open>splitIdx\<close>, in closed form: \<open>Nw\<close> stands for
  \<open>N + 1\<close>.
\<close>

definition split_entries :: "32 word \<Rightarrow> 32 word \<Rightarrow> 32 word list" where
  "split_entries Nw num_legs =
     map (\<lambda>i. of_nat i * Nw div num_legs) [0..<unat num_legs] @ [Nw]"

text \<open>The knot a leg leaves at an index it has visited: parameterized unless the leg is the last.\<close>

definition knot_of_leg :: "bool \<Rightarrow> ('s::zero) LQRKnot \<Rightarrow> 's LQRKnot" where
  "knot_of_leg last_leg knot = (if last_leg then knot else addParameterization (nx knot) knot)"

text \<open>A knot that is parameterized on the costate that links its leg to the next one.\<close>

definition linked_to_next :: "'s LQRKnot \<Rightarrow> bool" where
  "linked_to_next knot \<longleftrightarrow>
     Gx knot = transpose_mat (A_k knot) \<and> Gu knot = transpose_mat (B_k knot)
     \<and> gamma knot = f_k knot \<and> nth_k knot = nx knot"

text \<open>
  What the constructor establishes and the passes keep: \<open>splitIdx\<close> has \<open>numLegs + 1\<close>
  entries, \<open>checkIndices\<close> holds, and the last split index is within the knots and
  within the stage factors.
\<close>

definition legs_in_range :: "'s ParallelRiccatiSolver \<Rightarrow> bool" where
  "legs_in_range s \<longleftrightarrow>
     length (splitIdx s) = unat (numLegs s) + 1 \<and> checkIndices s
     \<and> unat (splitIdx s ! unat (numLegs s)) \<le> length (stages (problem s))
     \<and> unat (splitIdx s ! unat (numLegs s)) \<le> length (datas s)"

text \<open>
  The right-hand side of the condensed system before its sign is changed, in the words of
  the spec: \<open>g0\<close>, \<open>p\<close> of the first stage factor, then for every leg but the last the
  \<open>vt\<close> at the head of the leg and the \<open>p\<close> at the head of the next leg.
\<close>

definition interleaved_rhs :: "'s ParallelRiccatiSolver \<Rightarrow> 's BlkVec" where
  "interleaved_rhs s =
     g0 (problem s) # pvec (vm (datas s ! 0))
     # concat (map (\<lambda>i. [vt (vm (datas s ! unat (splitIdx s ! i))),
                          pvec (vm (datas s ! unat (splitIdx s ! (i + 1))))])
                 [0..<unat (numLegs s) - 1])"

subsection \<open>Concrete inputs\<close>

text \<open>
  A knot with one state and one control, and problems of one and of two such knots.
\<close>

definition example_knot :: "int LQRKnot" where
  "example_knot = \<lparr>nx = 1, nu = 1, nc = 0, nth_k = 0,
     Q_k = Identity 1 1, R_k = Identity 1 1, S_k = Zero_mat 1 1, q_k = [0], r_k = [0],
     A_k = \<lparr>mrows = 1, mcols = 1, coeff = [[2]]\<rparr>,
     B_k = \<lparr>mrows = 1, mcols = 1, coeff = [[3]]\<rparr>,
     E_k = \<lparr>mrows = 1, mcols = 1, coeff = [[- 1]]\<rparr>, f_k = [5],
     C_k = Zero_mat 0 1, D_k = Zero_mat 0 1, d_k = [],
     Gx = empty_mat, Gu = empty_mat, Gamma = empty_mat, gamma = []\<rparr>"

definition one_knot_problem :: "int LQRProblem" where
  "one_knot_problem = \<lparr>G0 = Identity 1 1, g0 = [7], stages = [example_knot]\<rparr>"

definition two_knot_problem :: "int LQRProblem" where
  "two_knot_problem = \<lparr>G0 = Identity 1 1, g0 = [7], stages = [example_knot, example_knot]\<rparr>"

text \<open>
  The solver that the constructor builds from the two-knot problem with two legs, the
  same solver holding a condensed solution of four blocks, and the solver that the
  constructor builds from the one-knot problem with one leg.
\<close>

definition example_solver :: "int ParallelRiccatiSolver" where
  "example_solver =
     \<lparr>datas = [StageFactor_new 1 1 0 1, StageFactor_new 1 1 0 0],
      numLegs = 2, splitIdx = [0, 1, 2],
      condensedKktSystem = \<lparr>subdiagonal = [], diagonal = [], superdiagonal = []\<rparr>,
      condensedKktRhs = [],
      problem = \<lparr>G0 = Identity 1 1, g0 = [7],
                 stages = [example_knot\<lparr>nth_k := 1, Gx := transpose_mat (A_k example_knot),
                                         Gu := transpose_mat (B_k example_knot),
                                         gamma := f_k example_knot\<rparr>,
                           example_knot]\<rparr>\<rparr>"


definition one_leg_solver :: "int ParallelRiccatiSolver" where
  "one_leg_solver =
     \<lparr>datas = [StageFactor_new 1 1 0 0], numLegs = 1, splitIdx = [0, 1],
      condensedKktSystem = \<lparr>subdiagonal = [], diagonal = [], superdiagonal = []\<rparr>,
      condensedKktRhs = [], problem = one_knot_problem\<rparr>"

text \<open>
  Callees that report failure, callees that report success, and a forward callee that
  writes the \<open>theta\<close> it is given to every costate of its leg (the empty vector when
  it is given none). All of them leave the sizes of their arguments alone.
\<close>

definition failing_backwardImpl :: "int backwardImpl_t" where
  "failing_backwardImpl st mudyn mueq ds = (False, ds)"

definition failing_solve :: "int tridiagonal_solve_t" where
  "failing_solve sbd dg spd rhs = (False, sbd, dg, spd, rhs)"

definition passing_backwardImpl :: "int backwardImpl_t" where
  "passing_backwardImpl st mudyn mueq ds = (True, ds)"

definition passing_solve :: "int tridiagonal_solve_t" where
  "passing_solve sbd dg spd rhs = (True, sbd, dg, spd, rhs)"


section \<open>Results about the knot and the initial state\<close>

text \<open>
  Claim C9. For every knot and every parameter dimension \<open>n\<close>, \<open>addParameterization n\<close>
  allocates the blocks \<open>Gx\<close> and \<open>Gu\<close> (with \<open>n\<close> rows, and \<open>nth\<close> becomes \<open>n\<close>) and
  leaves \<open>Q, R, q, r, A, B, E, f\<close> as they were; on a whole problem, the \<open>Q\<close> of every
  stage is the one from before the call.
\<close>

theorem addParameterization_frame:
  fixes knot :: "('s::zero) LQRKnot" and p :: "'s LQRProblem"
  shows "Q_k (addParameterization n knot) = Q_k knot
       \<and> R_k (addParameterization n knot) = R_k knot
       \<and> q_k (addParameterization n knot) = q_k knot
       \<and> r_k (addParameterization n knot) = r_k knot
       \<and> A_k (addParameterization n knot) = A_k knot
       \<and> B_k (addParameterization n knot) = B_k knot
       \<and> E_k (addParameterization n knot) = E_k knot
       \<and> f_k (addParameterization n knot) = f_k knot
       \<and> nth_k (addParameterization n knot) = n
       \<and> mrows (Gx (addParameterization n knot)) = n
       \<and> mrows (Gu (addParameterization n knot)) = n
       \<and> map Q_k (stages (addParameterization_problem n p)) = map Q_k (stages p)
       \<and> length (stages (addParameterization_problem n p)) = length (stages p)"
  by (simp add: addParameterization_def addParameterization_problem_def Zero_mat_def)

text \<open>
  Claim C10. \<open>getInitState\<close> and \<open>setInitState x0\<close> raise a runtime error exactly when
  \<open>initCondIsStateError\<close> is false. Otherwise \<open>getInitState\<close> returns the stored target,
  and \<open>setInitState\<close> returns the problem with that target replaced by \<open>x0\<close> and with the
  same stages, terminal cost and terminal constraints.
\<close>

theorem init_state_accessors:
  "getInitState p =
     (if initCondIsStateError p then Inr (target_m (the (init_state_error_m p)))
      else Inl (RuntimeError not_state_error_msg))
   \<and> setInitState x0 p =
     (if initCondIsStateError p
      then Inr (p\<lparr>init_state_error_m := Some ((the (init_state_error_m p))\<lparr>target_m := x0\<rparr>)\<rparr>)
      else Inl (RuntimeError not_state_error_msg))
   \<and> (case setInitState x0 p of
        Inl e \<Rightarrow> True
      | Inr p' \<Rightarrow> stages_m p' = stages_m p \<and> term_cost_m p' = term_cost_m p
                 \<and> term_cstrs_m p' = term_cstrs_m p \<and> unone_m p' = unone_m p
                 \<and> init_constraint_m p' = init_constraint_m p
                 \<and> getInitState p' = Inr x0)"
  by (cases "init_state_error_m p")
     (simp_all add: getInitState_def setInitState_def initCondIsStateError_def)

section \<open>Results about the warm-start check\<close>

lemma fold_list_update_upt:
  "k \<le> length xs \<Longrightarrow>
   fold (\<lambda>i ys. ys[i := g i]) [0..<k] xs = map g [0..<k] @ drop k xs"
proof (induction k)
  case 0
  then show ?case by simp
next
  case (Suc k)
  then have lt: "k < length xs" by simp
  have "fold (\<lambda>i ys. ys[i := g i]) [0..<Suc k] xs = (map g [0..<k] @ drop k xs)[k := g k]"
    using Suc by simp
  also have "\<dots> = map g [0..<k] @ (drop k xs)[0 := g k]"
    by (simp add: list_update_append)
  also have "(drop k xs)[0 := g k] = g k # drop (Suc k) xs"
    using lt by (simp add: Cons_nth_drop_Suc [symmetric])
  finally show ?case by simp
qed

lemma map_nth_upt: "map (\<lambda>i. h (xs ! i)) [0..<length xs] = map h xs"
  by (rule nth_equalityI) simp_all

lemma length_resize_vec: "length (resize_vec n dflt xs) = n"
  by (simp add: resize_vec_def)

lemma xs_default_init_eq:
  assumes "stages_m p \<noteq> []"
  shows "xs_default_init p xs =
           Inr (map (\<lambda>sm. neutral (xspace sm)) (stages_m p)
                @ [neutral (xspace_next (last (stages_m p)))])"
proof -
  let ?n = "length (stages_m p)"
  let ?xs1 = "resize_vec (?n + 1) [] xs"
  have len: "length ?xs1 = ?n + 1" by (rule length_resize_vec)
  have "fold (\<lambda>i ys. ys[i := neutral (xspace (stages_m p ! i))]) [0..<?n] ?xs1
          = map (\<lambda>i. neutral (xspace (stages_m p ! i))) [0..<?n] @ drop ?n ?xs1"
    using len by (intro fold_list_update_upt) simp
  moreover have "map (\<lambda>i. neutral (xspace (stages_m p ! i))) [0..<?n]
          = map (\<lambda>sm. neutral (xspace sm)) (stages_m p)"
    by (rule map_nth_upt)
  moreover have "length (drop ?n ?xs1) = Suc 0"
    using len by simp
  then obtain y where "drop ?n ?xs1 = [y]"
    by (cases "drop ?n ?xs1") (auto simp del: length_drop)
  ultimately show ?thesis
    using assms by (simp add: xs_default_init_def numSteps_def Let_def list_update_append)
qed

lemma us_default_init_eq:
  "us_default_init p us = Inr (map (\<lambda>sm. neutral (uspace sm)) (stages_m p))"
proof -
  let ?n = "length (stages_m p)"
  let ?us1 = "resize_vec ?n [] us"
  have len: "length ?us1 = ?n" by (rule length_resize_vec)
  have "fold (\<lambda>i ys. ys[i := neutral (uspace (stages_m p ! i))]) [0..<?n] ?us1
          = map (\<lambda>i. neutral (uspace (stages_m p ! i))) [0..<?n] @ drop ?n ?us1"
    using len by (intro fold_list_update_upt) simp
  moreover have "map (\<lambda>i. neutral (uspace (stages_m p ! i))) [0..<?n]
          = map (\<lambda>sm. neutral (uspace sm)) (stages_m p)"
    by (rule map_nth_upt)
  ultimately show ?thesis
    using len by (simp add: us_default_init_def numSteps_def Let_def)
qed

text \<open>
  Claim C7, as amended. For every problem with \<open>N\<close> steps that has a stage, or whose
  \<open>xs_init\<close> is not empty: a non-empty \<open>xs_init\<close> of size other than \<open>N + 1\<close> fails with a
  runtime error, and so does a non-empty \<open>us_init\<close> of size other than \<open>N\<close>; otherwise
  the call returns, an empty \<open>xs_init\<close> gives the \<open>N + 1\<close> neutral elements of the stage
  spaces (the last one from the next-state space of the last stage), an empty \<open>us_init\<close>
  gives the \<open>N\<close> neutral controls, and a non-empty input is copied as it is.
\<close>

theorem checkTrajectoryAndAssign_cases:
  assumes "stages_m p \<noteq> [] \<or> xs_init \<noteq> []"
  shows "checkTrajectoryAndAssign p xs_init us_init xs_out us_out =
     (if xs_init \<noteq> [] \<and> length xs_init \<noteq> numSteps p + 1
      then Inl (RuntimeError ''warm-start for xs has wrong size!'')
      else if us_init \<noteq> [] \<and> length us_init \<noteq> numSteps p
      then Inl (RuntimeError ''warm-start for us has wrong size!'')
      else Inr (if xs_init = []
                then map (\<lambda>sm. neutral (xspace sm)) (stages_m p)
                     @ [neutral (xspace_next (last (stages_m p)))]
                else xs_init,
                if us_init = [] then map (\<lambda>sm. neutral (uspace sm)) (stages_m p)
                else us_init))"
proof (cases "xs_init = []")
  case True
  with assms have "stages_m p \<noteq> []" by simp
  then show ?thesis
    using True
    by (simp add: checkTrajectoryAndAssign_def Let_def xs_default_init_eq us_default_init_eq)
next
  case False
  then show ?thesis
    by (simp add: checkTrajectoryAndAssign_def Let_def us_default_init_eq)
qed

theorem checkTrajectoryAndAssign_cases_witness:
  "checkTrajectoryAndAssign
     \<lparr>init_constraint_m = (), stages_m = [\<lparr>xspace = \<lparr>neutral = [0::int, 0]\<rparr>,
        uspace = \<lparr>neutral = [0]\<rparr>, xspace_next = \<lparr>neutral = [0, 0, 1]\<rparr>\<rparr>],
       term_cost_m = (), term_cstrs_m = (), unone_m = [0], init_state_error_m = None\<rparr>
     [] [[7]] [] []
   = Inr ([[0, 0], [0, 0, 1]], [[7]])"
  using checkTrajectoryAndAssign_cases
    [of "\<lparr>init_constraint_m = (), stages_m = [\<lparr>xspace = \<lparr>neutral = [0::int, 0]\<rparr>,
        uspace = \<lparr>neutral = [0]\<rparr>, xspace_next = \<lparr>neutral = [0, 0, 1]\<rparr>\<rparr>],
       term_cost_m = (), term_cstrs_m = (), unone_m = [0], init_state_error_m = None\<rparr>"
        "[]" "[[7]]" "[]" "[]"]
  by (simp add: numSteps_def)

text \<open>
  The claim as written also covers a problem without stages: with an empty \<open>xs_init\<close>
  the default initialisation then calls \<^verbatim>\<open>back()\<close> on the empty vector of stages, and
  no output of one neutral element comes back.
\<close>

theorem checkTrajectoryAndAssign_no_stage:
  "checkTrajectoryAndAssign
     \<lparr>init_constraint_m = (), stages_m = ([] :: int StageModel list),
       term_cost_m = (), term_cstrs_m = (), unone_m = [0::int], init_state_error_m = None\<rparr>
     [] [] [] []
   = Inl UndefinedBehaviour"
  by (simp add: checkTrajectoryAndAssign_def xs_default_init_def numSteps_def Let_def)

section \<open>Results about the binding of the scaler\<close>

text \<open>
  Claim C8 asks that \<open>setWeights\<close> with a vector of the wrong size fails and leaves the
  weights alone. The binding sets the error indicator and goes on: on a scaler of two
  blocks with weights \<open>[1, 1]\<close> and the one-entry vector \<open>[5]\<close> the lambda runs to its end
  and the weights are \<open>[5]\<close>. The binding of \<open>set_weight\<close> throws in the same situation.
\<close>

theorem setWeights_binding_wrong_size:
  "setWeights_binding \<lparr>num_blocks = 2, weights = [1::int, 1]\<rparr> [5]
     = Inr (Some (ValueError ''Input has wrong dimension.''), \<lparr>num_blocks = 2, weights = [5]\<rparr>)
   \<and> set_weight_binding \<lparr>num_blocks = 2, weights = [1::int, 1]\<rparr> 5 2
     = Inl (IndexError ''Index out of bounds.'')"
  by (simp add: setWeights_binding_def set_weight_binding_def size_scaler_def setWeights_def)

section \<open>Loops, vectors and unsigned arithmetic\<close>

lemma foldM_append:
  "foldM body (xs @ ys) s = (case foldM body xs s of None \<Rightarrow> None | Some s' \<Rightarrow> foldM body ys s')"
  by (induction xs arbitrary: s) (auto split: option.splits)

lemma foldM_snoc:
  "foldM body (xs @ [x]) s = (case foldM body xs s of None \<Rightarrow> None | Some s' \<Rightarrow> body x s')"
  by (simp add: foldM_append split: option.splits)

lemma foldM_upt_total:
  assumes "a \<le> b" and "P a s"
    and step: "\<And>k t. a \<le> k \<Longrightarrow> k < b \<Longrightarrow> P k t \<Longrightarrow> \<exists>t'. body k t = Some t' \<and> P (Suc k) t'"
  shows "\<exists>s'. foldM body [a..<b] s = Some s' \<and> P b s'"
  using \<open>a \<le> b\<close>
proof (induction rule: dec_induct)
  case base
  then show ?case using \<open>P a s\<close> by simp
next
  case (step n)
  then obtain t where t: "foldM body [a..<n] s = Some t" "P n t" by blast
  from assms(3) [OF step.hyps(1) step.hyps(2) t(2)]
  obtain t' where "body n t = Some t'" "P (Suc n) t'" by blast
  then show ?case using t step.hyps(1) by (simp add: foldM_snoc)
qed

lemma foldM_upt_partial:
  assumes "a \<le> b" and "foldM body [a..<b] s = Some s'" and "P a s"
    and step: "\<And>k t t'. a \<le> k \<Longrightarrow> k < b \<Longrightarrow> P k t \<Longrightarrow> body k t = Some t' \<Longrightarrow> P (Suc k) t'"
  shows "P b s'"
  using \<open>a \<le> b\<close> assms(2)
proof (induction arbitrary: s' rule: dec_induct)
  case base
  then show ?case using \<open>P a s\<close> by simp
next
  case (step n)
  from step.prems step.hyps(1) obtain t where t: "foldM body [a..<n] s = Some t" "body n t = Some s'"
    by (auto simp: foldM_snoc split: option.splits)
  from step.IH [OF t(1)] have "P n t" .
  from assms(4) [OF step.hyps(1) step.hyps(2) this t(2)] show ?case .
qed


lemma foldM_invariant:
  assumes "foldM body xs s = Some s'" and "P s"
    and "\<And>x t t'. x \<in> set xs \<Longrightarrow> P t \<Longrightarrow> body x t = Some t' \<Longrightarrow> P t'"
  shows "P s'"
  using assms
proof (induction xs arbitrary: s)
  case Nil
  then show ?case by simp
next
  case (Cons x xs)
  from Cons.prems(1) obtain t where t: "body x s = Some t" "foldM body xs t = Some s'"
    by (auto split: option.splits)
  have Pt: "P t" using Cons.prems(3) [of x s t] Cons.prems(2) t(1) by simp
  show ?case
  proof (rule Cons.IH [OF t(2) Pt])
    fix y u u' assume "y \<in> set xs" "P u" "body y u = Some u'"
    then show "P u'" using Cons.prems(3) [of y u u'] by simp
  qed
qed

lemma at_vec_Some [simp]: "i < length xs \<Longrightarrow> at_vec xs i = Some (xs ! i)"
  by (simp add: at_vec_def)

lemma at_vec_eq_Some: "at_vec xs i = Some v \<longleftrightarrow> i < length xs \<and> v = xs ! i"
  by (auto simp: at_vec_def)

lemma set_vec_Some [simp]: "i < length xs \<Longrightarrow> set_vec xs i v = Some (xs[i := v])"
  by (simp add: set_vec_def)

lemma set_vec_eq_Some: "set_vec xs i v = Some ys \<longleftrightarrow> i < length xs \<and> ys = xs[i := v]"
  by (auto simp: set_vec_def)

lemma foldM_set_vec_upt:
  "n \<le> length xs \<Longrightarrow>
   foldM (\<lambda>i ys. set_vec ys i (g i)) [0..<n] xs = Some (map g [0..<n] @ drop n xs)"
proof (induction n)
  case 0
  then show ?case by simp
next
  case (Suc n)
  then have lt: "n < length xs" by simp
  have "(map g [0..<n] @ drop n xs)[n := g n] = map g [0..<n] @ (drop n xs)[0 := g n]"
    by (simp add: list_update_append)
  also have "(drop n xs)[0 := g n] = g n # drop (Suc n) xs"
    using lt by (simp add: Cons_nth_drop_Suc [symmetric])
  finally show ?case using Suc lt by (simp add: foldM_snoc)
qed

lemma unat_horizon_Suc:
  "length (stages p) < 2 ^ 32 \<Longrightarrow>
   unat ((word_of_int (horizon p) :: 32 word) + 1) = length (stages p)"
proof -
  assume lt: "length (stages p) < 2 ^ 32"
  have "(word_of_int (horizon p) :: 32 word) + 1 = of_nat (length (stages p))"
    by (simp add: horizon_def)
  then show ?thesis using lt by (simp add: unat_of_nat)
qed

lemma unat_split_entry:
  fixes num_legs Nw :: "32 word"
  assumes "i * unat Nw < 2 ^ 32" and "i < 2 ^ 32"
  shows "unat (of_nat i * Nw div num_legs) = (i * unat Nw) div unat num_legs"
proof -
  have i: "unat (of_nat i :: 32 word) = i"
    using assms(2) by (simp add: unat_of_nat)
  have "unat ((of_nat i :: 32 word) * Nw) = i * unat Nw"
    using assms(1) i unat_mult_lem [of "of_nat i :: 32 word" Nw] by simp
  then show ?thesis by (simp add: unat_div)
qed

lemma split_step_less:
  fixes M J i :: nat
  assumes "0 < J" "J \<le> M"
  shows "(i * M) div J < (Suc i * M) div J"
proof -
  have "(i * M) div J + 1 = (i * M + J) div J"
    using assms(1) div_add_self2 [of J "i * M"] by simp
  also have "\<dots> \<le> (Suc i * M) div J"
    using assms(2) by (intro div_le_mono) simp
  finally show ?thesis by simp
qed

lemma split_last_less:
  fixes M J :: nat
  assumes "0 < J" "0 < M"
  shows "((J - 1) * M) div J < M"
proof -
  have "(J - 1) * M < M * J"
    using assms by (cases J) simp_all
  then show ?thesis using assms(1) by (simp add: div_less_iff_less_mult)
qed

lemma last_leg_test:
  fixes num_legs :: "32 word"
  assumes "k < unat num_legs"
  shows "(of_nat k = num_legs - 1) \<longleftrightarrow> Suc k = unat num_legs"
proof -
  have k32: "k < 2 ^ 32"
    using assms unsigned_less [of num_legs, where 'a = nat] by simp
  have nz: "num_legs \<noteq> 0" using assms by (auto simp: unat_eq_zero)
  have "unat (num_legs - 1) = unat num_legs - 1"
    using nz by (simp add: unat_minus_one)
  moreover have "unat (of_nat k :: 32 word) = k"
    using k32 by (simp add: unat_of_nat)
  ultimately have "(of_nat k = num_legs - 1) \<longleftrightarrow> k = unat num_legs - 1"
    by (simp add: word_unat_eq_iff)
  then show ?thesis using assms by auto
qed

lemma unat_max_uint: "unat (- 1 :: 32 word) = 4294967295"
  by (simp add: unsigned_minus_1_eq_mask mask_eq_exp_minus_1)

lemma upt_0_2: "[0..<2] = [0, 1]"
  by (simp add: upt_rec)

lemma upt_1_2: "[Suc 0..<2] = [Suc 0]"
  by (simp add: upt_rec)

section \<open>The split indices and the legs\<close>

lemma checkIndices_loop_iff:
  "checkIndices_loop sidx xs \<longleftrightarrow> (\<forall>i\<in>set xs. sidx ! i < sidx ! (i + 1))"
  by (induction xs) (auto simp: not_le)

lemma checkIndices_iff:
  "checkIndices s \<longleftrightarrow>
     splitIdx s ! 0 = 0 \<and> (\<forall>i<unat (numLegs s). splitIdx s ! i < splitIdx s ! (i + 1))"
  by (auto simp: checkIndices_def checkIndices_loop_iff)

lemma strictly_increasing_words:
  fixes sidx :: "32 word list"
  assumes "\<forall>i<n. sidx ! i < sidx ! (i + 1)" and "i \<le> j" and "j \<le> n"
  shows "unat (sidx ! i) + (j - i) \<le> unat (sidx ! j)"
  using assms(2,3)
proof (induction rule: dec_induct)
  case base
  then show ?case by simp
next
  case (step m)
  then have "sidx ! m < sidx ! (m + 1)" using assms(1) by simp
  then have "unat (sidx ! m) < unat (sidx ! Suc m)" by (simp add: word_less_nat_alt)
  with step show ?case by simp
qed

lemma init_solver_eq:
  assumes "unat num_legs + 1 < 2 ^ 32"
  shows "init_solver p num_legs =
     Some \<lparr>datas = [], numLegs = num_legs,
           splitIdx = split_entries (word_of_int (horizon p) + 1) num_legs,
           condensedKktSystem = \<lparr>subdiagonal = [], diagonal = [], superdiagonal = []\<rparr>,
           condensedKktRhs = [], problem = p\<rparr>"
proof -
  let ?J = "unat num_legs"
  let ?Nw = "(word_of_int (horizon p) :: 32 word) + 1"
  let ?g = "\<lambda>i. of_nat i * ?Nw div num_legs"
  have len: "unat (num_legs + 1) = ?J + 1"
    using assms unat_add_lem [of num_legs 1] by simp
  have "foldM (\<lambda>i sidx. set_vec sidx i (?g i)) [0..<?J] (replicate (?J + 1) 0)
          = Some (map ?g [0..<?J] @ drop ?J (replicate (?J + 1) 0))"
    by (rule foldM_set_vec_upt) simp
  moreover have "drop ?J (replicate (?J + 1) (0 :: 32 word)) = replicate (?J + 1 - ?J) 0"
    by (rule drop_replicate)
  then have "drop ?J (replicate (?J + 1) (0 :: 32 word)) = [0]"
    by simp
  moreover have "set_vec (map ?g [0..<?J] @ [0]) ?J ?Nw = Some (map ?g [0..<?J] @ [?Nw])"
    by (simp add: set_vec_def list_update_append)
  ultimately show ?thesis
    by (simp add: init_solver_def len split_entries_def Let_def)
qed

lemma init_solver_Some:
  assumes "init_solver p n = Some s0"
  shows "unat n + 1 < 2 ^ 32"
proof -
  let ?g = "\<lambda>i. of_nat i * ((word_of_int (horizon p) :: 32 word) + 1) div n"
  from assms obtain sidx sidx' where
    f: "foldM (\<lambda>i sidx. set_vec sidx i (?g i)) [0..<unat n] (replicate (unat (n + 1)) 0) = Some sidx"
    and w: "set_vec sidx (unat n) ((word_of_int (horizon p) :: 32 word) + 1) = Some sidx'"
    by (auto simp: init_solver_def Let_def bind_eq_Some_conv)
  have "length sidx = unat (n + 1)"
    by (rule foldM_invariant [OF f]) (auto simp: set_vec_eq_Some)
  with w have lt: "unat n < unat (n + 1)" by (simp add: set_vec_eq_Some)
  then have "1 + n \<noteq> 0" by (auto simp: add.commute)
  then have "unat (1 + n) = Suc (unat n)" by (rule unatSuc)
  then have "unat (n + 1) = Suc (unat n)" by (simp add: add.commute)
  moreover have "unat (n + 1) < 2 ^ 32"
    using unsigned_less [of "n + 1", where 'a = nat] by simp
  ultimately show ?thesis by simp
qed

lemma split_entries_props:
  fixes num_legs Nw :: "32 word"
  assumes J: "1 \<le> unat num_legs" "unat num_legs \<le> unat Nw"
    and nowrap: "(unat num_legs - 1) * unat Nw < 2 ^ 32"
  shows "length (split_entries Nw num_legs) = unat num_legs + 1"
    and "split_entries Nw num_legs ! 0 = 0"
    and "split_entries Nw num_legs ! unat num_legs = Nw"
    and "\<forall>i<unat num_legs. split_entries Nw num_legs ! i < split_entries Nw num_legs ! (i + 1)"
proof -
  let ?J = "unat num_legs" and ?M = "unat Nw"
  let ?g = "\<lambda>i. of_nat i * Nw div num_legs"
  let ?sidx = "split_entries Nw num_legs"
  have J32: "?J < 2 ^ 32" using unsigned_less [of num_legs, where 'a = nat] by simp
  have nth_lt: "?sidx ! i = ?g i" if "i < ?J" for i
    using that by (simp add: split_entries_def nth_append)
  have nth_J: "?sidx ! ?J = Nw"
    by (simp add: split_entries_def nth_append)
  have unat_g: "unat (?g i) = (i * ?M) div ?J" if "i < ?J" for i
  proof (rule unat_split_entry)
    have "i * ?M \<le> (?J - 1) * ?M" using that by (intro mult_le_mono1) simp
    then show "i * ?M < 2 ^ 32" using nowrap by (rule le_less_trans)
    show "i < 2 ^ 32" using that J32 by simp
  qed
  show "length ?sidx = ?J + 1" by (simp add: split_entries_def)
  show "?sidx ! 0 = 0" using J nth_lt [of 0] by (simp add: word_div_def)
  show "?sidx ! ?J = Nw" by (rule nth_J)
  show "\<forall>i<?J. ?sidx ! i < ?sidx ! (i + 1)"
  proof (intro allI impI)
    fix i assume i: "i < ?J"
    show "?sidx ! i < ?sidx ! (i + 1)"
    proof (cases "i + 1 < ?J")
      case True
      have "(i * ?M) div ?J < (Suc i * ?M) div ?J"
        using J by (intro split_step_less) simp_all
      moreover have "unat (?g i) = (i * ?M) div ?J"
        using i by (rule unat_g)
      moreover have "unat (?g (i + 1)) = ((i + 1) * ?M) div ?J"
        using True by (rule unat_g)
      ultimately have "unat (?g i) < unat (?g (i + 1))"
        by (simp only: Suc_eq_plus1)
      then show ?thesis using i True by (simp add: nth_lt word_less_nat_alt)
    next
      case False
      with i have eq: "i = ?J - 1" "i + 1 = ?J" by simp_all
      have "((?J - 1) * ?M) div ?J < ?M"
        using J by (intro split_last_less) simp_all
      moreover have "unat (?g i) = (i * ?M) div ?J"
        using i by (rule unat_g)
      ultimately have "unat (?g i) < unat Nw"
        using eq(1) by (simp only:)
      then show ?thesis using i eq nth_J by (simp add: nth_lt word_less_nat_alt)
    qed
  qed
qed

lemma buildLeg_knot_eq:
  "buildLeg_knot last_leg t s =
     (if t < length (stages (problem s))
      then Some (s\<lparr>problem := (problem s)\<lparr>stages := (stages (problem s))
                     [t := knot_of_leg last_leg (stages (problem s) ! t)]\<rparr>,
                   datas := datas s @
                     [StageFactor_new (nx (knot_of_leg last_leg (stages (problem s) ! t)))
                        (nu (knot_of_leg last_leg (stages (problem s) ! t)))
                        (nc (knot_of_leg last_leg (stages (problem s) ! t)))
                        (nth_k (knot_of_leg last_leg (stages (problem s) ! t)))]\<rparr>)
      else None)"
  by (simp add: buildLeg_knot_def at_vec_def knot_of_leg_def assert_that_def
      addParameterization_def Let_def)

lemma buildLeg_loop_total:
  fixes s :: "('s::zero) ParallelRiccatiSolver"
  assumes "a \<le> b" and "b \<le> length (stages (problem s))"
  shows "\<exists>s'. foldM (buildLeg_knot last_leg) [a..<b] s = Some s'
       \<and> splitIdx s' = splitIdx s \<and> numLegs s' = numLegs s
       \<and> length (stages (problem s')) = length (stages (problem s))
       \<and> length (datas s') = length (datas s) + (b - a)
       \<and> (\<forall>j. j < a \<or> b \<le> j \<longrightarrow> stages (problem s') ! j = stages (problem s) ! j)
       \<and> (\<forall>j. a \<le> j \<and> j < b \<longrightarrow>
             stages (problem s') ! j = knot_of_leg last_leg (stages (problem s) ! j))"
proof -
  let ?P = "\<lambda>k t. splitIdx t = splitIdx s \<and> numLegs t = numLegs s
       \<and> length (stages (problem t)) = length (stages (problem s))
       \<and> length (datas t) = length (datas s) + (k - a)
       \<and> (\<forall>j. j < a \<or> k \<le> j \<longrightarrow> stages (problem t) ! j = stages (problem s) ! j)
       \<and> (\<forall>j. a \<le> j \<and> j < k \<longrightarrow>
             stages (problem t) ! j = knot_of_leg last_leg (stages (problem s) ! j))"
  have "\<exists>s'. foldM (buildLeg_knot last_leg) [a..<b] s = Some s' \<and> ?P b s'"
  proof (rule foldM_upt_total [where P = ?P])
    show "a \<le> b" by fact
    show "?P a s" by auto
    fix k and t :: "'s ParallelRiccatiSolver"
    assume k: "a \<le> k" "k < b" and P: "?P k t"
    from k P assms(2) have lt: "k < length (stages (problem t))" by simp
    from P k have same: "stages (problem t) ! k = stages (problem s) ! k" by simp
    show "\<exists>t'. buildLeg_knot last_leg k t = Some t' \<and> ?P (Suc k) t'"
      using lt P k same
      by (simp add: buildLeg_knot_eq nth_list_update Suc_diff_le less_Suc_eq)
  qed
  then show ?thesis by blast
qed

lemma buildLeg_loop_range:
  fixes s :: "('s::zero) ParallelRiccatiSolver"
  assumes "foldM (buildLeg_knot last_leg) [a..<b] s = Some s'" and "a < b"
  shows "b \<le> length (stages (problem s))"
proof -
  let ?L = "length (stages (problem s))"
  let ?P = "\<lambda>k t. length (stages (problem t)) = ?L \<and> (a < k \<longrightarrow> k \<le> ?L)"
  have "?P b s'"
  proof (rule foldM_upt_partial [where P = ?P, OF _ assms(1)])
    show "a \<le> b" using assms(2) by simp
    show "?P a s" by simp
    fix k and t t' :: "'s ParallelRiccatiSolver"
    assume "a \<le> k" "k < b" "?P k t" "buildLeg_knot last_leg k t = Some t'"
    then show "?P (Suc k) t'"
      by (auto simp: buildLeg_knot_eq split: if_splits)
  qed
  then show ?thesis using assms(2) by simp
qed

lemma buildLeg_total:
  assumes "unat a < unat b" and "unat b \<le> length (stages (problem s))"
  shows "\<exists>s'. buildLeg a b last_leg s = Some s'
       \<and> splitIdx s' = splitIdx s \<and> numLegs s' = numLegs s
       \<and> length (stages (problem s')) = length (stages (problem s))
       \<and> length (datas s') = length (datas s) + (unat b - unat a)
       \<and> (\<forall>j. j < unat a \<or> unat b \<le> j \<longrightarrow> stages (problem s') ! j = stages (problem s) ! j)
       \<and> (\<not> last_leg \<longrightarrow> linked_to_next (stages (problem s') ! (unat b - 1)))"
proof -
  from buildLeg_loop_total [of "unat a" "unat b" s last_leg] assms
  obtain s1 where s1: "foldM (buildLeg_knot last_leg) [unat a..<unat b] s = Some s1"
      "splitIdx s1 = splitIdx s" "numLegs s1 = numLegs s"
      "length (stages (problem s1)) = length (stages (problem s))"
      "length (datas s1) = length (datas s) + (unat b - unat a)"
      "\<forall>j. j < unat a \<or> unat b \<le> j \<longrightarrow> stages (problem s1) ! j = stages (problem s) ! j"
      "\<forall>j. unat a \<le> j \<and> j < unat b \<longrightarrow>
             stages (problem s1) ! j = knot_of_leg last_leg (stages (problem s) ! j)"
    by (auto simp: less_imp_le)
  have bnz: "b \<noteq> 0" using assms(1) by (auto simp: unat_eq_zero)
  then have e: "unat (b - 1) = unat b - 1" by (simp add: unat_minus_one)
  have e_lt: "unat b - 1 < length (stages (problem s1))"
    using assms s1(4) by simp
  have e_in: "unat a \<le> unat b - 1" "unat b - 1 < unat b" using assms(1) by simp_all
  show ?thesis
  proof (cases last_leg)
    case True
    then show ?thesis using s1 by (simp add: buildLeg_def)
  next
    case False
    have k: "stages (problem s1) ! (unat b - 1)
               = addParameterization (nx (stages (problem s) ! (unat b - 1)))
                   (stages (problem s) ! (unat b - 1))"
      using s1(7) e_in False by (simp add: knot_of_leg_def)
    show ?thesis
      using False s1 e e_lt e_in assms(1)
      by (auto simp: buildLeg_def k linked_to_next_def addParameterization_def nth_list_update
          knot_of_leg_def)
  qed
qed

lemma buildLeg_range:
  assumes "buildLeg a b last_leg s = Some s'" and "unat a < unat b"
  shows "unat b \<le> length (stages (problem s))"
proof -
  from assms(1) obtain s1 where "foldM (buildLeg_knot last_leg) [unat a..<unat b] s = Some s1"
    by (auto simp: buildLeg_def bind_eq_Some_conv)
  then show ?thesis using assms(2) by (rule buildLeg_loop_range)
qed

lemma buildLeg_splitIdx:
  assumes "buildLeg a b last_leg s = Some s'"
  shows "splitIdx s' = splitIdx s \<and> numLegs s' = numLegs s"
proof -
  from assms obtain s1 where s1: "foldM (buildLeg_knot last_leg) [unat a..<unat b] s = Some s1"
    and s': "(if \<not> last_leg
               then do {
                 knot \<leftarrow> at_vec (stages (problem s1)) (unat (b - 1));
                 Some (s1\<lparr>problem := (problem s1)\<lparr>stages := (stages (problem s1))
                     [unat (b - 1) := knot\<lparr>Gx := transpose_mat (A_k knot),
                                        Gu := transpose_mat (B_k knot),
                                        gamma := f_k knot\<rparr>]\<rparr>\<rparr>) }
               else Some s1) = Some s'"
    by (auto simp: buildLeg_def bind_eq_Some_conv)
  have "splitIdx s1 = splitIdx s \<and> numLegs s1 = numLegs s"
    by (rule foldM_invariant [OF s1]) (auto simp: buildLeg_knot_eq split: if_splits)
  moreover have "splitIdx s' = splitIdx s1 \<and> numLegs s' = numLegs s1"
    using s' by (auto simp: bind_eq_Some_conv split: if_splits)
  ultimately show ?thesis by simp
qed

lemma build_legs_splitIdx:
  assumes "build_legs n s0 = Some s"
  shows "splitIdx s = splitIdx s0 \<and> numLegs s = numLegs s0"
  by (rule foldM_invariant [OF assms [unfolded build_legs_def]])
     (auto simp: bind_eq_Some_conv dest: buildLeg_splitIdx)

lemma build_legs_total:
  fixes s0 :: "('s::zero) ParallelRiccatiSolver"
  assumes len: "length (splitIdx s0) = unat n + 1"
    and mono: "\<forall>i<unat n. splitIdx s0 ! i < splitIdx s0 ! (i + 1)"
    and top: "unat (splitIdx s0 ! unat n) \<le> length (stages (problem s0))"
    and d0: "length (datas s0) = unat (splitIdx s0 ! 0)"
  shows "\<exists>s. build_legs n s0 = Some s \<and> splitIdx s = splitIdx s0 \<and> numLegs s = numLegs s0
       \<and> length (stages (problem s)) = length (stages (problem s0))
       \<and> length (datas s) = unat (splitIdx s0 ! unat n)"
proof -
  let ?sidx = "splitIdx s0"
  let ?P = "\<lambda>k t. splitIdx t = ?sidx \<and> numLegs t = numLegs s0
       \<and> length (stages (problem t)) = length (stages (problem s0))
       \<and> length (datas t) = unat (?sidx ! k)"
  let ?body = "\<lambda>i s. do {
              start \<leftarrow> at_vec (splitIdx s) i;
              end \<leftarrow> at_vec (splitIdx s) (i + 1);
              buildLeg start end (of_nat i = n - 1) s }"
  have "\<exists>s. foldM ?body [0..<unat n] s0 = Some s \<and> ?P (unat n) s"
  proof (rule foldM_upt_total [where P = ?P])
    show "0 \<le> unat n" by simp
    show "?P 0 s0" using d0 by simp
    fix k and t :: "'s ParallelRiccatiSolver"
    assume k: "0 \<le> k" "k < unat n" and P: "?P k t"
    have lt: "unat (?sidx ! k) < unat (?sidx ! (k + 1))"
      using mono k by (simp add: word_less_nat_alt)
    have "unat (?sidx ! (k + 1)) + (unat n - (k + 1)) \<le> unat (?sidx ! unat n)"
      using k by (intro strictly_increasing_words [OF mono]) simp_all
    then have le: "unat (?sidx ! (k + 1)) \<le> length (stages (problem t))"
      using top P by simp
    from buildLeg_total [OF lt le, of "of_nat k = n - 1"]
    obtain t' where "buildLeg (?sidx ! k) (?sidx ! (k + 1)) (of_nat k = n - 1) t = Some t'"
      "splitIdx t' = splitIdx t" "numLegs t' = numLegs t"
      "length (stages (problem t')) = length (stages (problem t))"
      "length (datas t') = length (datas t) + (unat (?sidx ! (k + 1)) - unat (?sidx ! k))"
      by blast
    then show "\<exists>t'. ?body k t = Some t' \<and> ?P (Suc k) t'"
      using P k len lt by simp
  qed
  then show ?thesis by (simp add: build_legs_def)
qed

lemma build_legs_partial:
  fixes s0 :: "('s::zero) ParallelRiccatiSolver"
  assumes built: "build_legs n s0 = Some s"
    and len: "length (splitIdx s0) = unat n + 1"
    and mono: "\<forall>i<unat n. splitIdx s0 ! i < splitIdx s0 ! (i + 1)"
  shows "length (stages (problem s)) = length (stages (problem s0))
       \<and> (0 < unat n \<longrightarrow> unat (splitIdx s0 ! unat n) \<le> length (stages (problem s0)))
       \<and> (\<forall>i. i + 1 < unat n \<longrightarrow>
             linked_to_next (stages (problem s) ! (unat (splitIdx s0 ! (i + 1)) - 1)))"
proof -
  let ?sidx = "splitIdx s0" and ?L = "length (stages (problem s0))"
  let ?P = "\<lambda>k t. splitIdx t = ?sidx \<and> length (stages (problem t)) = ?L
       \<and> (0 < k \<longrightarrow> unat (?sidx ! k) \<le> ?L)
       \<and> (\<forall>i<k. i + 1 < unat n \<longrightarrow>
             linked_to_next (stages (problem t) ! (unat (?sidx ! (i + 1)) - 1)))"
  let ?body = "\<lambda>i s. do {
              start \<leftarrow> at_vec (splitIdx s) i;
              end \<leftarrow> at_vec (splitIdx s) (i + 1);
              buildLeg start end (of_nat i = n - 1) s }"
  have "?P (unat n) s"
  proof (rule foldM_upt_partial [where P = ?P, OF _ built [unfolded build_legs_def]])
    show "0 \<le> unat n" by simp
    show "?P 0 s0" by simp
    fix k and t t' :: "'s ParallelRiccatiSolver"
    assume k: "0 \<le> k" "k < unat n" and P: "?P k t" and body: "?body k t = Some t'"
    have lt: "unat (?sidx ! k) < unat (?sidx ! (k + 1))"
      using mono k by (simp add: word_less_nat_alt)
    from body P k len
    have leg: "buildLeg (?sidx ! k) (?sidx ! (k + 1)) (of_nat k = n - 1) t = Some t'"
      by simp
    from buildLeg_range [OF leg lt] have le: "unat (?sidx ! (k + 1)) \<le> length (stages (problem t))" .
    from buildLeg_total [OF lt le, of "of_nat k = n - 1"] leg
    have t': "splitIdx t' = splitIdx t"
      "length (stages (problem t')) = length (stages (problem t))"
      "\<forall>j. j < unat (?sidx ! k) \<or> unat (?sidx ! (k + 1)) \<le> j
            \<longrightarrow> stages (problem t') ! j = stages (problem t) ! j"
      "\<not> (of_nat k = n - 1) \<longrightarrow> linked_to_next (stages (problem t') ! (unat (?sidx ! (k + 1)) - 1))"
      by auto
    have old: "linked_to_next (stages (problem t') ! (unat (?sidx ! (i + 1)) - 1))"
      if i: "i < k" "i + 1 < unat n" for i
    proof -
      have "unat (?sidx ! i) + (i + 1 - i) \<le> unat (?sidx ! (i + 1))"
        using i by (intro strictly_increasing_words [OF mono]) simp_all
      moreover have "unat (?sidx ! (i + 1)) + (k - (i + 1)) \<le> unat (?sidx ! k)"
        using i k by (intro strictly_increasing_words [OF mono]) simp_all
      ultimately have "unat (?sidx ! (i + 1)) - 1 < unat (?sidx ! k)" by simp
      then have "stages (problem t') ! (unat (?sidx ! (i + 1)) - 1)
                   = stages (problem t) ! (unat (?sidx ! (i + 1)) - 1)"
        using t'(3) by simp
      then show ?thesis using P i by simp
    qed
    have new: "linked_to_next (stages (problem t') ! (unat (?sidx ! (k + 1)) - 1))"
      if "k + 1 < unat n"
      using t'(4) that last_leg_test [OF k(2)] by simp
    show "?P (Suc k) t'"
      using t'(1,2) P le old new by (auto simp: less_Suc_eq)
  qed
  then show ?thesis by auto
qed

text \<open>
  The constructor returns whenever every leg gets a knot and the products
  \<open>i * (N + 1)\<close> do not wrap.
\<close>

lemma ParallelRiccatiSolver_total:
  fixes p :: "('s::zero) LQRProblem"
  assumes J: "1 \<le> unat num_legs" "unat num_legs \<le> length (stages p)"
    and M: "length (stages p) < 2 ^ 32"
    and nowrap: "(unat num_legs - 1) * length (stages p) < 2 ^ 32"
  shows "\<exists>s. ParallelRiccatiSolver p num_legs = Some s
       \<and> numLegs s = num_legs
       \<and> length (splitIdx s) = unat num_legs + 1
       \<and> splitIdx s ! 0 = 0
       \<and> splitIdx s ! unat num_legs = word_of_int (horizon p) + 1
       \<and> unat (splitIdx s ! unat num_legs) = length (stages p)
       \<and> (\<forall>i<unat num_legs. splitIdx s ! i < splitIdx s ! (i + 1))
       \<and> checkIndices s
       \<and> length (datas s) = length (stages p)
       \<and> length (stages (problem s)) = length (stages p)"
proof -
  let ?Nw = "(word_of_int (horizon p) :: 32 word) + 1"
  let ?sidx = "split_entries ?Nw num_legs"
  let ?s0 = "\<lparr>datas = [], numLegs = num_legs, splitIdx = ?sidx,
           condensedKktSystem = \<lparr>subdiagonal = [], diagonal = [], superdiagonal = []\<rparr>,
           condensedKktRhs = [], problem = p\<rparr>"
  have Nw: "unat ?Nw = length (stages p)" using M by (rule unat_horizon_Suc)
  have "unat num_legs + 1 < 2 ^ 32"
  proof (cases "unat num_legs \<le> 2")
    case True
    then show ?thesis by simp
  next
    case False
    have "unat num_legs + 1 \<le> 2 * unat num_legs"
      using J(1) by simp
    also have "\<dots> \<le> (unat num_legs - 1) * unat num_legs"
      using False by (intro mult_le_mono1) simp
    also have "\<dots> \<le> (unat num_legs - 1) * length (stages p)"
      using J(2) by (rule mult_le_mono2)
    finally show ?thesis using nowrap by simp
  qed
  then have init: "init_solver p num_legs = Some ?s0" by (rule init_solver_eq)
  have J': "unat num_legs \<le> unat ?Nw" and nowrap': "(unat num_legs - 1) * unat ?Nw < 2 ^ 32"
    using J nowrap Nw by simp_all
  note props = split_entries_props [OF J(1) J' nowrap']
  have "\<exists>s. build_legs num_legs ?s0 = Some s \<and> splitIdx s = splitIdx ?s0 \<and> numLegs s = numLegs ?s0
       \<and> length (stages (problem s)) = length (stages (problem ?s0))
       \<and> length (datas s) = unat (splitIdx ?s0 ! unat num_legs)"
    using props Nw by (intro build_legs_total) simp_all
  then obtain s where s: "build_legs num_legs ?s0 = Some s" "splitIdx s = ?sidx"
      "numLegs s = num_legs" "length (stages (problem s)) = length (stages p)"
      "length (datas s) = unat (?sidx ! unat num_legs)"
    by auto
  have chk: "checkIndices s"
    using props s by (simp add: checkIndices_iff)
  have "ParallelRiccatiSolver p num_legs = Some s"
    using init s chk props(3) by (simp add: ParallelRiccatiSolver_def assert_that_def)
  then show ?thesis using s props chk Nw by simp
qed

text \<open>Every solver that the constructor returns has its legs in range.\<close>

lemma ParallelRiccatiSolver_Some:
  fixes p :: "('s::zero) LQRProblem"
  assumes "ParallelRiccatiSolver p num_legs = Some s"
  shows "numLegs s = num_legs \<and> legs_in_range s
       \<and> (\<forall>i. i + 1 < unat num_legs \<longrightarrow>
             linked_to_next (stages (problem s) ! (unat (splitIdx s ! (i + 1)) - 1)))"
proof -
  let ?Nw = "(word_of_int (horizon p) :: 32 word) + 1"
  from assms obtain s0 where init: "init_solver p num_legs = Some s0"
    and built: "build_legs num_legs s0 = Some s"
    and len: "length (datas s) = unat ?Nw"
    and chk: "checkIndices s"
    by (auto simp: ParallelRiccatiSolver_def bind_eq_Some_conv assert_that_def split: if_splits)
  from init_solver_Some [OF init] have "unat num_legs + 1 < 2 ^ 32" .
  from init_solver_eq [OF this, of p] init
  have s0: "splitIdx s0 = split_entries ?Nw num_legs" "numLegs s0 = num_legs" "problem s0 = p"
    by auto
  from build_legs_splitIdx [OF built]
  have same: "splitIdx s = splitIdx s0" "numLegs s = numLegs s0" by simp_all
  have slen: "length (splitIdx s0) = unat num_legs + 1"
    by (simp add: s0 split_entries_def)
  have top: "splitIdx s0 ! unat num_legs = ?Nw"
    by (simp add: s0 split_entries_def nth_append)
  from chk have mono: "\<forall>i<unat num_legs. splitIdx s0 ! i < splitIdx s0 ! (i + 1)"
    and zero: "splitIdx s0 ! 0 = 0"
    by (simp_all add: checkIndices_iff same s0)
  from build_legs_partial [OF built slen mono]
  have part: "length (stages (problem s)) = length (stages (problem s0))"
    "0 < unat num_legs \<longrightarrow> unat (splitIdx s0 ! unat num_legs) \<le> length (stages (problem s0))"
    "\<forall>i. i + 1 < unat num_legs \<longrightarrow>
          linked_to_next (stages (problem s) ! (unat (splitIdx s0 ! (i + 1)) - 1))"
    by simp_all
  have "unat (splitIdx s0 ! unat num_legs) \<le> length (stages (problem s0))"
  proof (cases "unat num_legs = 0")
    case True
    then show ?thesis using zero by simp
  next
    case False
    then show ?thesis using part(2) by simp
  qed
  then show ?thesis
    using part same slen chk len top s0(2) by (simp add: legs_in_range_def)
qed

lemma example_solver_constructed:
  "ParallelRiccatiSolver two_knot_problem 2 = Some example_solver"
  by (simp add: ParallelRiccatiSolver_def init_solver_eq split_entries_def horizon_def
      two_knot_problem_def build_legs_def buildLeg_def buildLeg_knot_eq knot_of_leg_def
      upt_0_2 upt_1_2
      example_solver_def assert_that_def checkIndices_def addParameterization_def
      example_knot_def Zero_mat_def transpose_mat_def word_le_nat_alt)

lemma example_solver_in_range: "legs_in_range example_solver"
  by (simp add: legs_in_range_def example_solver_def checkIndices_def upt_0_2 example_knot_def
      StageFactor_new_def word_le_nat_alt)

text \<open>The constructor also accepts a single leg, and the solver it returns has its leg in range.\<close>

lemma one_leg_solver_constructed:
  "ParallelRiccatiSolver one_knot_problem 1 = Some one_leg_solver"
  by (simp add: ParallelRiccatiSolver_def init_solver_eq split_entries_def horizon_def
      one_knot_problem_def build_legs_def buildLeg_def buildLeg_knot_eq knot_of_leg_def
      one_leg_solver_def assert_that_def checkIndices_def example_knot_def word_le_nat_alt)

lemma one_leg_solver_in_range: "legs_in_range one_leg_solver"
  by (simp add: legs_in_range_def one_leg_solver_def checkIndices_def one_knot_problem_def
      StageFactor_new_def word_le_nat_alt)

text \<open>
  Claim C5, as amended. For every problem of \<open>N + 1\<close> knots and every \<open>num_legs\<close> with
  \<open>1 \<le> num_legs \<le> N + 1\<close> (and \<open>N + 1\<close> and \<open>(num_legs - 1) * (N + 1)\<close> below \<open>2^32\<close>,
  so that the 32-bit products do not wrap), the constructor returns a solver with
  \<open>splitIdx[0] = 0\<close>, \<open>splitIdx[num_legs] = N + 1\<close> and strictly increasing split
  indices, on which \<open>checkIndices\<close> is true. On every solver, \<open>checkIndices\<close> is false
  exactly when \<open>splitIdx[0] \<noteq> 0\<close> or some \<open>splitIdx[i] \<ge> splitIdx[i+1]\<close> with
  \<open>i < numLegs\<close>.
\<close>

theorem split_indices_after_construction:
  fixes p :: "('s::zero) LQRProblem" and t :: "'s ParallelRiccatiSolver"
  assumes "1 \<le> unat num_legs" and "unat num_legs \<le> length (stages p)"
    and "length (stages p) < 2 ^ 32"
    and "(unat num_legs - 1) * length (stages p) < 2 ^ 32"
  shows "(\<exists>s. ParallelRiccatiSolver p num_legs = Some s
            \<and> splitIdx s ! 0 = 0
            \<and> splitIdx s ! unat num_legs = word_of_int (horizon p) + 1
            \<and> unat (splitIdx s ! unat num_legs) = length (stages p)
            \<and> (\<forall>i<unat num_legs. splitIdx s ! i < splitIdx s ! (i + 1))
            \<and> checkIndices s)
       \<and> (\<not> checkIndices t \<longleftrightarrow>
            splitIdx t ! 0 \<noteq> 0
            \<or> (\<exists>i<unat (numLegs t). splitIdx t ! (i + 1) \<le> splitIdx t ! i))"
proof
  from ParallelRiccatiSolver_total [OF assms]
  show "\<exists>s. ParallelRiccatiSolver p num_legs = Some s
            \<and> splitIdx s ! 0 = 0
            \<and> splitIdx s ! unat num_legs = word_of_int (horizon p) + 1
            \<and> unat (splitIdx s ! unat num_legs) = length (stages p)
            \<and> (\<forall>i<unat num_legs. splitIdx s ! i < splitIdx s ! (i + 1))
            \<and> checkIndices s"
    by blast
  show "\<not> checkIndices t \<longleftrightarrow>
            splitIdx t ! 0 \<noteq> 0
            \<or> (\<exists>i<unat (numLegs t). splitIdx t ! (i + 1) \<le> splitIdx t ! i)"
    by (auto simp: checkIndices_iff not_less)
qed

theorem split_indices_after_construction_witness:
  "1 \<le> unat (2 :: 32 word) \<and> unat (2 :: 32 word) \<le> length (stages two_knot_problem)
   \<and> length (stages two_knot_problem) < 2 ^ 32
   \<and> (unat (2 :: 32 word) - 1) * length (stages two_knot_problem) < 2 ^ 32
   \<and> (\<exists>s. ParallelRiccatiSolver two_knot_problem 2 = Some s
            \<and> splitIdx s ! 0 = 0
            \<and> splitIdx s ! unat (2 :: 32 word) = word_of_int (horizon two_knot_problem) + 1
            \<and> unat (splitIdx s ! unat (2 :: 32 word)) = length (stages two_knot_problem)
            \<and> (\<forall>i<unat (2 :: 32 word). splitIdx s ! i < splitIdx s ! (i + 1))
            \<and> checkIndices s)
   \<and> (\<not> checkIndices example_solver \<longleftrightarrow>
            splitIdx example_solver ! 0 \<noteq> 0
            \<or> (\<exists>i<unat (numLegs example_solver).
                   splitIdx example_solver ! (i + 1) \<le> splitIdx example_solver ! i))"
proof -
  have h: "1 \<le> unat (2 :: 32 word)" "unat (2 :: 32 word) \<le> length (stages two_knot_problem)"
    "length (stages two_knot_problem) < 2 ^ 32"
    "(unat (2 :: 32 word) - 1) * length (stages two_knot_problem) < 2 ^ 32"
    by (simp_all add: two_knot_problem_def)
  from h split_indices_after_construction [OF h, of example_solver]
  show ?thesis by blast
qed

text \<open>
  The claim as written takes every \<open>num_legs \<ge> 1\<close>. With one knot (\<open>N = 0\<close>) and two legs
  the constructor writes the split indices \<open>0, 0, 1\<close>, which are not strictly
  increasing; \<open>checkIndices\<close> is false on them, and the constructor does not return
  (the first leg is empty, and its last knot would be at index \<open>0 - 1\<close>).
\<close>

theorem split_indices_one_knot_two_legs:
  "map_option splitIdx (init_solver one_knot_problem 2) = Some [0, 0, 1]
   \<and> map_option checkIndices (init_solver one_knot_problem 2) = Some False
   \<and> ParallelRiccatiSolver one_knot_problem 2 = None"
  by (simp add: ParallelRiccatiSolver_def init_solver_eq split_entries_def horizon_def
      one_knot_problem_def build_legs_def buildLeg_def at_vec_def upt_0_2
      unat_max_uint checkIndices_def)

text \<open>
  The bound on \<open>(num_legs - 1) * (N + 1)\<close> is needed as well: with \<open>2^31\<close> knots and
  three legs the product \<open>2 * 2^31\<close> wraps to \<open>0\<close>, and the third split index is \<open>0\<close>.
\<close>

lemma upt_0_3: "[0..<3] = [0, 1, 2]"
  by (simp add: upt_rec)

lemma split_indices_wrap:
  "map_option splitIdx
     (init_solver \<lparr>G0 = Identity 1 1, g0 = [7], stages = replicate 2147483648 example_knot\<rparr> 3)
   = Some [0, 715827882, 0, 2147483648]"
  by (simp add: init_solver_eq split_entries_def horizon_def upt_0_3)

text \<open>
  Claim C4. In every solver that the constructor returns, and for every leg \<open>i\<close> that
  is not the last, the leg is not empty and its last knot, at index
  \<open>splitIdx[i+1] - 1\<close>, has \<open>Gx = A\<^sup>T\<close>, \<open>Gu = B\<^sup>T\<close>, \<open>gamma = f\<close> and \<open>nth = nx\<close>.
\<close>

theorem last_knot_linked_to_next_leg:
  fixes p :: "('s::zero) LQRProblem"
  assumes "ParallelRiccatiSolver p num_legs = Some s" and "i + 1 < unat num_legs"
  shows "splitIdx s ! i < splitIdx s ! (i + 1)
       \<and> unat (splitIdx s ! (i + 1)) - 1 < length (stages (problem s))
       \<and> Gx (stages (problem s) ! (unat (splitIdx s ! (i + 1)) - 1))
           = transpose_mat (A_k (stages (problem s) ! (unat (splitIdx s ! (i + 1)) - 1)))
       \<and> Gu (stages (problem s) ! (unat (splitIdx s ! (i + 1)) - 1))
           = transpose_mat (B_k (stages (problem s) ! (unat (splitIdx s ! (i + 1)) - 1)))
       \<and> gamma (stages (problem s) ! (unat (splitIdx s ! (i + 1)) - 1))
           = f_k (stages (problem s) ! (unat (splitIdx s ! (i + 1)) - 1))
       \<and> nth_k (stages (problem s) ! (unat (splitIdx s ! (i + 1)) - 1))
           = nx (stages (problem s) ! (unat (splitIdx s ! (i + 1)) - 1))"
proof -
  from ParallelRiccatiSolver_Some [OF assms(1)]
  have n: "numLegs s = num_legs" and ok: "legs_in_range s"
    and link: "linked_to_next (stages (problem s) ! (unat (splitIdx s ! (i + 1)) - 1))"
    using assms(2) by simp_all
  from ok have mono: "\<forall>j<unat num_legs. splitIdx s ! j < splitIdx s ! (j + 1)"
    and top: "unat (splitIdx s ! unat num_legs) \<le> length (stages (problem s))"
    by (simp_all add: legs_in_range_def checkIndices_iff n)
  have lt: "splitIdx s ! i < splitIdx s ! (i + 1)"
    using mono assms(2) by simp
  then have pos: "0 < unat (splitIdx s ! (i + 1))"
    by (simp add: word_less_nat_alt)
  have "unat (splitIdx s ! (i + 1)) + (unat num_legs - (i + 1)) \<le> unat (splitIdx s ! unat num_legs)"
    using assms(2) by (intro strictly_increasing_words [OF mono]) simp_all
  then have "unat (splitIdx s ! (i + 1)) - 1 < length (stages (problem s))"
    using top pos by simp
  then show ?thesis using lt link by (simp add: linked_to_next_def)
qed

theorem last_knot_linked_to_next_leg_witness:
  "ParallelRiccatiSolver two_knot_problem 2 = Some example_solver
   \<and> (0::nat) + 1 < unat (2 :: 32 word)
   \<and> Gx (stages (problem example_solver) ! 0) = \<lparr>mrows = 1, mcols = 1, coeff = [[2]]\<rparr>
   \<and> Gu (stages (problem example_solver) ! 0) = \<lparr>mrows = 1, mcols = 1, coeff = [[3]]\<rparr>
   \<and> gamma (stages (problem example_solver) ! 0) = [5]
   \<and> nth_k (stages (problem example_solver) ! 0) = 1"
  using last_knot_linked_to_next_leg [OF example_solver_constructed, of 0]
  by (simp add: example_solver_constructed example_solver_def example_knot_def transpose_mat_def)
section \<open>The condensed system\<close>

lemma unat_pred:
  fixes n :: "32 word"
  shows "1 \<le> unat n \<Longrightarrow> unat (n - 1) = unat n - 1"
  by (rule unat_minus_one) auto

lemma unat_twice:
  fixes n :: "32 word"
  assumes "unat n < 2 ^ 31"
  shows "unat (2 * n) = 2 * unat n"
  using assms unat_mult_lem [of 2 n] by simp

lemma unat_twice_pred:
  fixes n :: "32 word"
  assumes "1 \<le> unat n" and "unat n < 2 ^ 31"
  shows "unat (2 * n - 1) = 2 * unat n - 1"
proof -
  have "1 \<le> unat (2 * n)" using assms by (simp add: unat_twice)
  then have "unat (2 * n - 1) = unat (2 * n) - 1" by (rule unat_pred)
  then show ?thesis using assms(2) by (simp add: unat_twice)
qed

lemma foldM_transpose_upt:
  "n \<le> length spd \<Longrightarrow> n \<le> length sbd \<Longrightarrow>
   foldM (\<lambda>i sbd. do { m \<leftarrow> at_vec spd i; set_vec sbd i (h m) }) [0..<n] sbd
     = Some (map (\<lambda>i. h (spd ! i)) [0..<n] @ drop n sbd)"
proof (induction n)
  case 0
  then show ?case by simp
next
  case (Suc n)
  then have lt: "n < length sbd" "n < length spd" by simp_all
  have "(map (\<lambda>i. h (spd ! i)) [0..<n] @ drop n sbd)[n := h (spd ! n)]
          = map (\<lambda>i. h (spd ! i)) [0..<n] @ (drop n sbd)[0 := h (spd ! n)]"
    by (simp add: list_update_append)
  also have "(drop n sbd)[0 := h (spd ! n)] = h (spd ! n) # drop (Suc n) sbd"
    using lt by (simp add: Cons_nth_drop_Suc [symmetric])
  finally show ?case using Suc lt by (simp add: foldM_snoc)
qed

lemma take_two_updates:
  assumes "n + 2 \<le> length xs"
  shows "take (n + 2) (xs[n := a, n + 1 := b]) = take n xs @ [a, b]"
proof -
  have "take (Suc (Suc n)) (xs[n := a, Suc n := b])
          = take (Suc n) (xs[n := a, Suc n := b]) @ [b]"
    using assms by (simp add: take_Suc_conv_app_nth)
  also have "take (Suc n) (xs[n := a, Suc n := b]) = take n xs @ [a]"
    using assms by (simp add: take_Suc_conv_app_nth)
  finally show ?thesis by simp
qed

lemma legs_in_range_mono:
  assumes "legs_in_range s" and "i \<le> j" and "j \<le> unat (numLegs s)"
  shows "unat (splitIdx s ! i) + (j - i) \<le> unat (splitIdx s ! j)"
  using assms by (intro strictly_increasing_words [where n = "unat (numLegs s)"])
    (simp_all add: legs_in_range_def checkIndices_iff)

lemma legs_in_range_cong:
  assumes "splitIdx s1 = splitIdx s" and "numLegs s1 = numLegs s"
    and "length (stages (problem s1)) = length (stages (problem s))"
    and "length (datas s1) = length (datas s)"
  shows "legs_in_range s1 = legs_in_range s"
  using assms by (simp add: legs_in_range_def checkIndices_def)

lemma legs_in_range_reads:
  assumes ok: "legs_in_range s" and i: "i + 1 < unat (numLegs s)"
  shows "i < length (splitIdx s)" and "i + 1 < length (splitIdx s)"
    and "unat (splitIdx s ! i) < length (datas s)"
    and "unat (splitIdx s ! i) < length (stages (problem s))"
    and "unat (splitIdx s ! (i + 1)) < length (datas s)"
    and "unat (splitIdx s ! (i + 1)) < length (stages (problem s))"
    and "unat (splitIdx s ! (i + 1) - 1) < length (stages (problem s))"
proof -
  let ?J = "unat (numLegs s)"
  from ok have len: "length (splitIdx s) = ?J + 1"
    and top: "unat (splitIdx s ! ?J) \<le> length (stages (problem s))"
      "unat (splitIdx s ! ?J) \<le> length (datas s)"
    by (simp_all add: legs_in_range_def)
  show "i < length (splitIdx s)" "i + 1 < length (splitIdx s)" using len i by simp_all
  have a: "unat (splitIdx s ! i) + 1 \<le> unat (splitIdx s ! (i + 1))"
    using legs_in_range_mono [OF ok, of i "i + 1"] i by simp
  have b: "unat (splitIdx s ! (i + 1)) + (?J - (i + 1)) \<le> unat (splitIdx s ! ?J)"
    using legs_in_range_mono [OF ok, of "i + 1" ?J] i by simp
  show "unat (splitIdx s ! i) < length (datas s)"
    "unat (splitIdx s ! i) < length (stages (problem s))"
    "unat (splitIdx s ! (i + 1)) < length (datas s)"
    "unat (splitIdx s ! (i + 1)) < length (stages (problem s))"
    using a b top i by simp_all
  have "1 \<le> unat (splitIdx s ! (i + 1))" using a by simp
  then have "unat (splitIdx s ! (i + 1) - 1) = unat (splitIdx s ! (i + 1)) - 1"
    by (rule unat_pred)
  then show "unat (splitIdx s ! (i + 1) - 1) < length (stages (problem s))"
    using a b top i by simp
qed

lemma legs_in_range_leg:
  assumes ok: "legs_in_range s" and i: "i < unat (numLegs s)"
  shows "i < length (splitIdx s)" and "i + 1 < length (splitIdx s)"
    and "unat (splitIdx s ! i) < unat (splitIdx s ! (i + 1))"
    and "unat (splitIdx s ! (i + 1)) \<le> unat (splitIdx s ! unat (numLegs s))"
    and "unat (splitIdx s ! (i + 1)) \<le> length (datas s)"
    and "unat (splitIdx s ! (i + 1)) \<le> length (stages (problem s))"
proof -
  let ?J = "unat (numLegs s)"
  from ok have len: "length (splitIdx s) = ?J + 1"
    and top: "unat (splitIdx s ! ?J) \<le> length (stages (problem s))"
      "unat (splitIdx s ! ?J) \<le> length (datas s)"
    by (simp_all add: legs_in_range_def)
  show "i < length (splitIdx s)" "i + 1 < length (splitIdx s)" using len i by simp_all
  show "unat (splitIdx s ! i) < unat (splitIdx s ! (i + 1))"
    using legs_in_range_mono [OF ok, of i "i + 1"] i by simp
  show b: "unat (splitIdx s ! (i + 1)) \<le> unat (splitIdx s ! ?J)"
    using legs_in_range_mono [OF ok, of "i + 1" ?J] i by simp
  show "unat (splitIdx s ! (i + 1)) \<le> length (datas s)"
    "unat (splitIdx s ! (i + 1)) \<le> length (stages (problem s))"
    using b top by simp_all
qed

lemma assemble_leg_total:
  assumes ok: "legs_in_range s" and i: "i + 1 < unat (numLegs s)"
    and dg: "length dg = 2 * unat (numLegs s)" and spd: "length spd = 2 * unat (numLegs s) - 1"
  shows "\<exists>dg' spd'. assemble_leg s i (dg, spd, dims)
            = Some (dg', spd', dims @ [nx (stages (problem s) ! unat (splitIdx s ! i)),
                                       nth_k (stages (problem s) ! unat (splitIdx s ! (i + 1) - 1))])
       \<and> length dg' = length dg \<and> length spd' = length spd
       \<and> dg' ! 0 = dg ! 0 \<and> dg' ! 1 = dg ! 1 \<and> spd' ! 0 = spd ! 0 \<and> spd' ! 1 = spd ! 1"
  using legs_in_range_reads [OF ok i] i dg spd
  by (simp add: assemble_leg_def Let_def)

lemma assemble_legs_total:
  fixes s :: "'s ParallelRiccatiSolver"
  assumes ok: "legs_in_range s"
    and dg: "length dg = 2 * unat (numLegs s)" and spd: "length spd = 2 * unat (numLegs s) - 1"
    and dims: "length dims = 2" and J: "1 \<le> unat (numLegs s)"
  shows "\<exists>dg' spd' dims'.
           foldM (assemble_leg s) [0..<unat (numLegs s) - 1] (dg, spd, dims) = Some (dg', spd', dims')
         \<and> length dg' = length dg \<and> length spd' = length spd
         \<and> length dims' = 2 * unat (numLegs s)
         \<and> dg' ! 0 = dg ! 0 \<and> dg' ! 1 = dg ! 1 \<and> spd' ! 0 = spd ! 0 \<and> spd' ! 1 = spd ! 1"
proof -
  let ?J = "unat (numLegs s)"
  let ?P = "\<lambda>k (t :: 's MatrixXs list \<times> 's MatrixXs list \<times> nat list).
      case t of (dg', spd', dims') \<Rightarrow>
        length dg' = length dg \<and> length spd' = length spd \<and> length dims' = 2 + 2 * k
        \<and> dg' ! 0 = dg ! 0 \<and> dg' ! 1 = dg ! 1 \<and> spd' ! 0 = spd ! 0 \<and> spd' ! 1 = spd ! 1"
  have "\<exists>t. foldM (assemble_leg s) [0..<?J - 1] (dg, spd, dims) = Some t \<and> ?P (?J - 1) t"
  proof (rule foldM_upt_total [where P = ?P])
    show "0 \<le> ?J - 1" by simp
    show "?P 0 (dg, spd, dims)" using dims by simp
    fix k and t :: "'s MatrixXs list \<times> 's MatrixXs list \<times> nat list"
    assume k: "0 \<le> k" "k < ?J - 1" and P: "?P k t"
    obtain dg1 spd1 dims1 where t: "t = (dg1, spd1, dims1)" by (cases t)
    from k have i: "k + 1 < ?J" by simp
    from P t dg spd have l: "length dg1 = 2 * ?J" "length spd1 = 2 * ?J - 1" by simp_all
    from assemble_leg_total [OF ok i l, of dims1] P t
    show "\<exists>t'. assemble_leg s k t = Some t' \<and> ?P (Suc k) t'"
      by auto
  qed
  then show ?thesis using J by auto
qed

lemma assemble_rhs_leg_total:
  assumes ok: "legs_in_range s" and i: "i + 1 < unat (numLegs s)"
    and len: "length rhs = 2 * unat (numLegs s)"
  shows "assemble_rhs_leg s i rhs
           = Some (rhs[2 * i + 2 := vt (vm (datas s ! unat (splitIdx s ! i))),
                       2 * i + 2 + 1 := pvec (vm (datas s ! unat (splitIdx s ! (i + 1))))])"
  using legs_in_range_reads [OF ok i] i len
  by (simp add: assemble_rhs_leg_def Let_def)

lemma assemble_rhs_total:
  fixes s :: "'s ParallelRiccatiSolver"
  assumes ok: "legs_in_range s" and len: "length rhs = 2 * unat (numLegs s)"
    and J: "1 \<le> unat (numLegs s)"
  shows "foldM (assemble_rhs_leg s) [0..<unat (numLegs s) - 1] rhs
           = Some (take 2 rhs
                   @ concat (map (\<lambda>i. [vt (vm (datas s ! unat (splitIdx s ! i))),
                                        pvec (vm (datas s ! unat (splitIdx s ! (i + 1))))])
                               [0..<unat (numLegs s) - 1]))"
proof -
  let ?J = "unat (numLegs s)"
  let ?blk = "\<lambda>i. [vt (vm (datas s ! unat (splitIdx s ! i))),
                   pvec (vm (datas s ! unat (splitIdx s ! (i + 1))))]"
  let ?P = "\<lambda>k (r :: 's BlkVec). length r = 2 * ?J
              \<and> take (2 * k + 2) r = take 2 rhs @ concat (map ?blk [0..<k])"
  have "\<exists>r. foldM (assemble_rhs_leg s) [0..<?J - 1] rhs = Some r \<and> ?P (?J - 1) r"
  proof (rule foldM_upt_total [where P = ?P])
    show "0 \<le> ?J - 1" by simp
    show "?P 0 rhs" using len by (simp add: numeral_2_eq_2)
    fix k and r :: "'s BlkVec"
    assume k: "0 \<le> k" "k < ?J - 1" and P: "?P k r"
    from k have i: "k + 1 < ?J" by simp
    from P have l: "length r = 2 * ?J" by simp
    have "take (2 * k + 2 + 2)
            (r[2 * k + 2 := vt (vm (datas s ! unat (splitIdx s ! k))),
               2 * k + 2 + 1 := pvec (vm (datas s ! unat (splitIdx s ! (k + 1))))])
          = take (2 * k + 2) r @ ?blk k"
      using l i by (intro take_two_updates) simp
    then show "\<exists>r'. assemble_rhs_leg s k r = Some r' \<and> ?P (Suc k) r'"
      using P l by (simp add: assemble_rhs_leg_total [OF ok i l] add.commute)
  qed
  then obtain r where r: "foldM (assemble_rhs_leg s) [0..<?J - 1] rhs = Some r"
    "length r = 2 * ?J" "take (2 * (?J - 1) + 2) r = take 2 rhs @ concat (map ?blk [0..<?J - 1])"
    by blast
  have "2 * (?J - 1) + 2 = 2 * ?J" using J by simp
  with r(2,3) have "r = take 2 rhs @ concat (map ?blk [0..<?J - 1])" by simp
  with r(1) show ?thesis by simp
qed

lemma assembleCondensedSystem_total:
  fixes s :: "('s::{zero,one,times,uminus}) ParallelRiccatiSolver"
  assumes ok: "legs_in_range s" and J2: "2 \<le> unat (numLegs s)" and J31: "unat (numLegs s) < 2 ^ 31"
  shows "\<exists>s'. assembleCondensedSystem mudyn s = Some s'
       \<and> length (diagonal (condensedKktSystem s')) = 2 * unat (numLegs s)
       \<and> length (superdiagonal (condensedKktSystem s')) = 2 * unat (numLegs s) - 1
       \<and> diagonal (condensedKktSystem s') ! 0
           = smult (- mudyn) (Identity (nc0 (problem s)) (nc0 (problem s)))
       \<and> superdiagonal (condensedKktSystem s') ! 0 = G0 (problem s)
       \<and> diagonal (condensedKktSystem s') ! 1 = Pmat (vm (datas s ! 0))
       \<and> superdiagonal (condensedKktSystem s') ! 1 = Vxt (vm (datas s ! 0))
       \<and> subdiagonal (condensedKktSystem s')
           = map transpose_mat (superdiagonal (condensedKktSystem s'))
       \<and> condensedKktRhs s' = map (map (\<lambda>x. x * (- 1))) (interleaved_rhs s)
       \<and> datas s' = datas s \<and> problem s' = problem s
       \<and> splitIdx s' = splitIdx s \<and> numLegs s' = numLegs s"
proof -
  let ?J = "unat (numLegs s)"
  let ?sbd0 = "resize_vec (unat (2 * numLegs s - 1)) empty_mat (subdiagonal (condensedKktSystem s))"
  let ?dg0 = "resize_vec (unat (2 * numLegs s)) empty_mat (diagonal (condensedKktSystem s))"
  let ?spd0 = "resize_vec (unat (2 * numLegs s - 1)) empty_mat (superdiagonal (condensedKktSystem s))"
  let ?D0 = "smult (- mudyn) (Identity (nc0 (problem s)) (nc0 (problem s)))"
  let ?dgA = "?dg0[0 := ?D0, 1 := Pmat (vm (datas s ! 0))]"
  let ?spdA = "?spd0[0 := G0 (problem s), 1 := Vxt (vm (datas s ! 0))]"
  let ?dims0 = "[nc0 (problem s), nx (stages (problem s) ! 0)]"
  have u: "unat (2 * numLegs s) = 2 * ?J" "unat (2 * numLegs s - 1) = 2 * ?J - 1"
    "unat (numLegs s - 1) = ?J - 1"
    using J2 J31 by (simp_all add: unat_twice unat_twice_pred unat_pred)
  have len0: "length ?dg0 = 2 * ?J" "length ?spd0 = 2 * ?J - 1" "length ?sbd0 = 2 * ?J - 1"
    by (simp_all add: length_resize_vec u)
  have pos: "0 < length (datas s)" "0 < length (stages (problem s))"
    using legs_in_range_reads(3,4) [OF ok, of 0] J2 by auto
  have lenA: "length ?dgA = 2 * ?J" "length ?spdA = 2 * ?J - 1"
    using len0 by simp_all
  from assemble_legs_total [OF ok lenA, of ?dims0] J2
  obtain dg' spd' dims' where legs:
      "foldM (assemble_leg s) [0..<?J - 1] (?dgA, ?spdA, ?dims0) = Some (dg', spd', dims')"
      "length dg' = 2 * ?J" "length spd' = 2 * ?J - 1" "length dims' = 2 * ?J"
      "dg' ! 0 = ?dgA ! 0" "dg' ! 1 = ?dgA ! 1" "spd' ! 0 = ?spdA ! 0" "spd' ! 1 = ?spdA ! 1"
    using lenA by auto
  have blocks: "dg' ! 0 = ?D0" "dg' ! 1 = Pmat (vm (datas s ! 0))"
    "spd' ! 0 = G0 (problem s)" "spd' ! 1 = Vxt (vm (datas s ! 0))"
    using legs(5-8) len0 J2 by simp_all
  have "foldM (\<lambda>i sbd. do { m \<leftarrow> at_vec spd' i; set_vec sbd i (transpose_mat m) })
          [0..<length ?sbd0] ?sbd0
        = Some (map (\<lambda>i. transpose_mat (spd' ! i)) [0..<length ?sbd0] @ drop (length ?sbd0) ?sbd0)"
    using len0 legs(3) by (intro foldM_transpose_upt) simp_all
  moreover have "map (\<lambda>i. transpose_mat (spd' ! i)) [0..<length ?sbd0] = map transpose_mat spd'"
    using map_nth_upt [of transpose_mat spd'] len0(3) legs(3) by simp
  ultimately have sbd: "foldM (\<lambda>i sbd. do { m \<leftarrow> at_vec spd' i; set_vec sbd i (transpose_mat m) })
          [0..<length ?sbd0] ?sbd0 = Some (map transpose_mat spd')"
    by simp
  let ?rhsA = "(BlkVec dims' :: 's BlkVec)[0 := g0 (problem s), 1 := pvec (vm (datas s ! 0))]"
  have lenR: "length ?rhsA = 2 * ?J" using legs(4) by (simp add: BlkVec_def)
  have take2: "take 2 ?rhsA = [g0 (problem s), pvec (vm (datas s ! 0))]"
    using take_two_updates [of 0 "BlkVec dims' :: 's BlkVec" "g0 (problem s)" "pvec (vm (datas s ! 0))"]
      legs(4) J2 by (simp add: BlkVec_def numeral_2_eq_2)
  from assemble_rhs_total [OF ok lenR] J2 take2
  have rhs: "foldM (assemble_rhs_leg s) [0..<?J - 1] ?rhsA = Some (interleaved_rhs s)"
    by (simp add: interleaved_rhs_def)
  have lenB: "length (BlkVec dims' :: 's BlkVec) = 2 * ?J"
    using legs(4) by (simp add: BlkVec_def)
  have "assembleCondensedSystem mudyn s
          = Some (s\<lparr>condensedKktSystem :=
                      \<lparr>subdiagonal = map transpose_mat spd', diagonal = dg', superdiagonal = spd'\<rparr>,
                    condensedKktRhs := map (map (\<lambda>x. x * (- 1))) (interleaved_rhs s)\<rparr>)"
    using len0 pos J2 legs(1,2,4) sbd rhs lenB
    by (simp add: assembleCondensedSystem_def Let_def u assert_that_def)
  then show ?thesis using legs(2,3) blocks by simp
qed

lemma length_interleaved_rhs:
  "length (interleaved_rhs s) = 2 * (unat (numLegs s) - 1) + 2"
  by (simp add: interleaved_rhs_def length_concat sum_list_triv o_def)

text \<open>
  Claim C3, as amended. On a solver with its legs in range and at least two legs (fewer than \<open>2^31\<close>,
  so that \<open>2 * numLegs\<close> does not wrap), \<open>assembleCondensedSystem mudyn\<close> returns, and
  the system it leaves has \<open>2 * numLegs\<close> diagonal blocks with
  \<open>diagonal[0] = -mudyn * Identity(nc0, nc0)\<close>, \<open>superdiagonal[0] = G0\<close>,
  \<open>diagonal[1]\<close> the \<open>Pmat\<close> and \<open>superdiagonal[1]\<close> the \<open>Vxt\<close> of the first stage factor,
  every subdiagonal block the transpose of the superdiagonal block of the same index,
  and as right-hand side the interleaved blocks \<open>g0, p\<^sub>0, vt, p, \<dots>\<close> with every
  coefficient multiplied by \<open>-1\<close>.
\<close>

theorem condensed_system_blocks:
  fixes s :: "('s::{zero,one,times,uminus}) ParallelRiccatiSolver"
  assumes "legs_in_range s" and "2 \<le> unat (numLegs s)" and "unat (numLegs s) < 2 ^ 31"
  shows "\<exists>s'. assembleCondensedSystem mudyn s = Some s'
       \<and> length (diagonal (condensedKktSystem s')) = 2 * unat (numLegs s)
       \<and> diagonal (condensedKktSystem s') ! 0
           = smult (- mudyn) (Identity (nc0 (problem s)) (nc0 (problem s)))
       \<and> superdiagonal (condensedKktSystem s') ! 0 = G0 (problem s)
       \<and> diagonal (condensedKktSystem s') ! 1 = Pmat (vm (datas s ! 0))
       \<and> superdiagonal (condensedKktSystem s') ! 1 = Vxt (vm (datas s ! 0))
       \<and> length (superdiagonal (condensedKktSystem s')) = 2 * unat (numLegs s) - 1
       \<and> subdiagonal (condensedKktSystem s')
           = map transpose_mat (superdiagonal (condensedKktSystem s'))
       \<and> condensedKktRhs s' = map (map (\<lambda>x. x * (- 1))) (interleaved_rhs s)"
  using assembleCondensedSystem_total [OF assms, where mudyn = mudyn] by blast

theorem condensed_system_blocks_witness:
  "legs_in_range example_solver \<and> 2 \<le> unat (numLegs example_solver)
   \<and> unat (numLegs example_solver) < 2 ^ 31
   \<and> (\<exists>s'. assembleCondensedSystem 3 example_solver = Some s'
          \<and> length (diagonal (condensedKktSystem s')) = 4
          \<and> diagonal (condensedKktSystem s') ! 0 = \<lparr>mrows = 1, mcols = 1, coeff = [[- 3]]\<rparr>
          \<and> superdiagonal (condensedKktSystem s') ! 0 = \<lparr>mrows = 1, mcols = 1, coeff = [[1]]\<rparr>
          \<and> diagonal (condensedKktSystem s') ! 1 = \<lparr>mrows = 1, mcols = 1, coeff = [[0]]\<rparr>
          \<and> superdiagonal (condensedKktSystem s') ! 1 = \<lparr>mrows = 1, mcols = 1, coeff = [[0]]\<rparr>
          \<and> subdiagonal (condensedKktSystem s')
              = map transpose_mat (superdiagonal (condensedKktSystem s'))
          \<and> condensedKktRhs s' = [[- 7], [0], [0], [0]])"
proof -
  have h: "legs_in_range example_solver" "2 \<le> unat (numLegs example_solver)"
    "unat (numLegs example_solver) < 2 ^ 31"
    by (rule example_solver_in_range) (simp_all add: example_solver_def)
  have rhs: "map (map (\<lambda>x. x * (- 1))) (interleaved_rhs example_solver) = [[- 7], [0], [0], [0 :: int]]"
    by (simp add: interleaved_rhs_def example_solver_def StageFactor_new_def Zero_vec_def)
  have blocks: "smult (- 3) (Identity (nc0 (problem example_solver)) (nc0 (problem example_solver)))
                  = \<lparr>mrows = 1, mcols = 1, coeff = [[- 3 :: int]]\<rparr>"
    "G0 (problem example_solver) = \<lparr>mrows = 1, mcols = 1, coeff = [[1]]\<rparr>"
    "Pmat (vm (datas example_solver ! 0)) = \<lparr>mrows = 1, mcols = 1, coeff = [[0]]\<rparr>"
    "Vxt (vm (datas example_solver ! 0)) = \<lparr>mrows = 1, mcols = 1, coeff = [[0]]\<rparr>"
    by (simp_all add: example_solver_def nc0_def smult_def Identity_def StageFactor_new_def
        Zero_mat_def)
  from condensed_system_blocks [OF h, of 3] h rhs blocks
  show ?thesis by (auto simp: example_solver_def)
qed

text \<open>
  The claim as written does not ask for two legs. On the solver that the constructor
  builds with one leg, \<open>superdiagonal\<close> is resized to \<open>2 * 1 - 1 = 1\<close> block and
  \<open>superdiagonal[1]\<close> is then assigned outside the vector: no condensed system with a
  \<open>superdiagonal[1]\<close> is built there, although the legs are in range.
\<close>

theorem condensed_system_one_leg:
  "ParallelRiccatiSolver one_knot_problem 1 = Some one_leg_solver
   \<and> legs_in_range one_leg_solver
   \<and> unat (numLegs one_leg_solver) < 2 ^ 31
   \<and> assembleCondensedSystem 3 one_leg_solver = None"
  by (simp add: one_leg_solver_constructed one_leg_solver_in_range)
     (simp add: one_leg_solver_def one_knot_problem_def assembleCondensedSystem_def Let_def
      resize_vec_def set_vec_def at_vec_def)

section \<open>The backward pass\<close>

lemma make_span_Some:
  "i0 \<le> i1 \<Longrightarrow> i1 \<le> length vec \<Longrightarrow>
   make_span_from_indices vec i0 i1 = Some (take (i1 - i0) (drop i0 vec))"
  by (simp add: make_span_from_indices_def)

lemma length_write_span:
  "i0 + length view \<le> length vec \<Longrightarrow> length (write_span vec i0 view) = length vec"
  by (simp add: write_span_def)


lemma backward_leg_total:
  assumes ok: "legs_in_range s" and i: "i < unat (numLegs s)"
    and impl: "\<And>st mu me ds. length (snd (backwardImpl st mu me ds)) = length ds"
  shows "\<exists>r s'. backward_leg backwardImpl mudyn mueq i (ret, s) = Some (r, s')
       \<and> splitIdx s' = splitIdx s \<and> numLegs s' = numLegs s \<and> problem s' = problem s
       \<and> length (datas s') = length (datas s)"
proof -
  let ?i0 = "unat (splitIdx s ! i)" and ?i1 = "unat (splitIdx s ! (i + 1))"
  note r = legs_in_range_leg [OF ok i]
  let ?st = "take (?i1 - ?i0) (drop ?i0 (stages (problem s)))"
  let ?dt = "take (?i1 - ?i0) (drop ?i0 (datas s))"
  obtain rr dt' where call: "backwardImpl ?st mudyn mueq ?dt = (rr, dt')"
    by (cases "backwardImpl ?st mudyn mueq ?dt")
  have "length dt' = length ?dt" using impl [of ?st mudyn mueq ?dt] call by simp
  then have "length dt' = ?i1 - ?i0" using r by simp
  then have "length (write_span (datas s) ?i0 dt') = length (datas s)"
    using r by (intro length_write_span) simp
  then show ?thesis
    using r call by (simp add: backward_leg_def make_span_Some less_imp_le)
qed

lemma backward_legs_total:
  fixes s :: "'s ParallelRiccatiSolver"
  assumes ok: "legs_in_range s"
    and impl: "\<And>st mu me ds. length (snd (backwardImpl st mu me ds)) = length ds"
  shows "\<exists>r s'. foldM (backward_leg backwardImpl mudyn mueq) [0..<unat (numLegs s)] (True, s)
                  = Some (r, s')
       \<and> splitIdx s' = splitIdx s \<and> numLegs s' = numLegs s \<and> problem s' = problem s
       \<and> length (datas s') = length (datas s)"
proof -
  let ?P = "\<lambda>(k :: nat) (t :: bool \<times> 's ParallelRiccatiSolver).
      splitIdx (snd t) = splitIdx s \<and> numLegs (snd t) = numLegs s \<and> problem (snd t) = problem s
      \<and> length (datas (snd t)) = length (datas s)"
  have "\<exists>t. foldM (backward_leg backwardImpl mudyn mueq) [0..<unat (numLegs s)] (True, s) = Some t
          \<and> ?P (unat (numLegs s)) t"
  proof (rule foldM_upt_total [where P = ?P])
    show "0 \<le> unat (numLegs s)" by simp
    show "?P 0 (True, s)" by simp
    fix k and t :: "bool \<times> 's ParallelRiccatiSolver"
    assume k: "0 \<le> k" "k < unat (numLegs s)" and P: "?P k t"
    obtain ret s1 where t: "t = (ret, s1)" by (cases t)
    from P t ok have ok1: "legs_in_range s1"
      using legs_in_range_cong [of s1 s] by simp
    from k P t have k1: "k < unat (numLegs s1)" by simp
    from backward_leg_total [where backwardImpl = backwardImpl and mudyn = mudyn and mueq = mueq
        and ret = ret, OF ok1 k1 impl] P t
    show "\<exists>t'. backward_leg backwardImpl mudyn mueq k t = Some t' \<and> ?P (Suc k) t'"
      by auto
  qed
  then show ?thesis by auto
qed

lemma backward_total:
  fixes s :: "('s::{zero,one,times,uminus}) ParallelRiccatiSolver"
  assumes ok: "legs_in_range s" and J2: "2 \<le> unat (numLegs s)" and J31: "unat (numLegs s) < 2 ^ 31"
    and impl: "\<And>st mu me ds. length (snd (backwardImpl st mu me ds)) = length ds"
  shows "\<exists>s'. backward backwardImpl solve mudyn mueq s = Some (True, s')"
proof -
  from backward_legs_total [where backwardImpl = backwardImpl and mudyn = mudyn and mueq = mueq,
      OF ok impl]
  obtain r s1 where legs: "foldM (backward_leg backwardImpl mudyn mueq) [0..<unat (numLegs s)] (True, s)
                  = Some (r, s1)"
    and same: "splitIdx s1 = splitIdx s" "numLegs s1 = numLegs s" "problem s1 = problem s"
      "length (datas s1) = length (datas s)"
    by blast
  from ok same have ok1: "legs_in_range s1"
    using legs_in_range_cong [of s1 s] by simp
  from assembleCondensedSystem_total [OF ok1, where mudyn = mudyn] J2 J31 same
  obtain s2 where asm: "assembleCondensedSystem mudyn s1 = Some s2" by auto
  show ?thesis
    using legs asm by (simp add: backward_def split: prod.splits)
qed

lemma backward_never_false:
  "backward backwardImpl solve mudyn mueq t \<noteq> Some (False, t')"
  by (auto simp: backward_def bind_eq_Some_conv split: prod.splits)

lemma backward_keeps_legs_in_range:
  fixes s :: "('s::{zero,one,times,uminus}) ParallelRiccatiSolver"
  assumes ok: "legs_in_range s" and J2: "2 \<le> unat (numLegs s)" and J31: "unat (numLegs s) < 2 ^ 31"
    and impl: "\<And>st mu me ds. length (snd (backwardImpl st mu me ds)) = length ds"
    and run: "backward backwardImpl solve mudyn mueq s = Some (r, s')"
  shows "legs_in_range s' \<and> numLegs s' = numLegs s \<and> splitIdx s' = splitIdx s
       \<and> problem s' = problem s"
proof -
  from backward_legs_total [where backwardImpl = backwardImpl and mudyn = mudyn and mueq = mueq,
      OF ok impl]
  obtain r1 s1 where legs: "foldM (backward_leg backwardImpl mudyn mueq) [0..<unat (numLegs s)] (True, s)
                  = Some (r1, s1)"
    and same: "splitIdx s1 = splitIdx s" "numLegs s1 = numLegs s" "problem s1 = problem s"
      "length (datas s1) = length (datas s)"
    by blast
  from ok same have ok1: "legs_in_range s1"
    using legs_in_range_cong [of s1 s] by simp
  from assembleCondensedSystem_total [OF ok1, where mudyn = mudyn] J2 J31 same
  obtain s2 where asm: "assembleCondensedSystem mudyn s1 = Some s2"
    and same2: "datas s2 = datas s1" "problem s2 = problem s1" "splitIdx s2 = splitIdx s1"
      "numLegs s2 = numLegs s1"
    by auto
  from run legs asm obtain sys rhs where s': "s' = s2\<lparr>condensedKktSystem := sys, condensedKktRhs := rhs\<rparr>"
    by (auto simp: backward_def split: prod.splits)
  have "legs_in_range s' = legs_in_range s"
    using s' same same2 by (intro legs_in_range_cong) simp_all
  then show ?thesis using ok s' same same2 by simp
qed

text \<open>
  Claim C1, as amended. On a solver with its legs in range and at least two legs (fewer
  than \<open>2^31\<close>, so that \<open>2 * numLegs\<close> does not wrap), \<open>backward mudyn mueq\<close> returns
  \<open>true\<close>, whatever flags the \<open>backwardImpl\<close> of the legs and the block-tridiagonal
  solve return; \<open>backwardImpl\<close> is only asked to leave as many stage factors in its
  span as it was given. And on no solver \<open>t\<close> at all does \<open>backward\<close> return \<open>false\<close>.
\<close>

theorem backward_returns_true:
  fixes s t t' :: "('s::{zero,one,times,uminus}) ParallelRiccatiSolver"
  assumes "legs_in_range s" and "2 \<le> unat (numLegs s)" and "unat (numLegs s) < 2 ^ 31"
    and "\<And>st mu me ds. length (snd (backwardImpl st mu me ds)) = length ds"
  shows "(\<exists>s'. backward backwardImpl solve mudyn mueq s = Some (True, s'))
       \<and> backward backwardImpl solve mudyn mueq t \<noteq> Some (False, t')"
proof
  show "\<exists>s'. backward backwardImpl solve mudyn mueq s = Some (True, s')"
    using assms by (rule backward_total)
  show "backward backwardImpl solve mudyn mueq t \<noteq> Some (False, t')"
    by (rule backward_never_false)
qed

theorem backward_returns_true_witness:
  "legs_in_range example_solver \<and> 2 \<le> unat (numLegs example_solver)
   \<and> unat (numLegs example_solver) < 2 ^ 31
   \<and> fst (failing_backwardImpl [] 0 0 []) = False
   \<and> fst (failing_solve [] [] [] []) = False
   \<and> (\<exists>s'. backward failing_backwardImpl failing_solve 0 0 example_solver = Some (True, s'))
   \<and> backward failing_backwardImpl failing_solve 0 0 one_leg_solver
         \<noteq> Some (False, one_leg_solver)"
proof -
  have h: "legs_in_range example_solver" "2 \<le> unat (numLegs example_solver)"
    "unat (numLegs example_solver) < 2 ^ 31"
    by (rule example_solver_in_range) (simp_all add: example_solver_def)
  have impl: "\<And>st mu me ds. length (snd (failing_backwardImpl st mu me ds)) = length ds"
    by (simp add: failing_backwardImpl_def)
  from backward_returns_true [where backwardImpl = failing_backwardImpl and solve = failing_solve
      and mudyn = 0 and mueq = 0 and t = one_leg_solver and t' = one_leg_solver, OF h impl] h
  show ?thesis by (simp add: failing_backwardImpl_def failing_solve_def)
qed

text \<open>
  The claim as written takes every leg count. The solver that the constructor builds
  with one leg has a superdiagonal of \<open>2 * 1 - 1 = 1\<close> block, and
  \<open>assembleCondensedSystem\<close> assigns to \<open>superdiagonal[1]\<close>, outside the vector:
  \<open>backward\<close> does not return \<open>true\<close> there, even with callees that succeed.
\<close>

theorem backward_one_leg:
  "ParallelRiccatiSolver one_knot_problem 1 = Some one_leg_solver
   \<and> backward passing_backwardImpl passing_solve 0 0 one_leg_solver = None"
  by (simp add: one_leg_solver_constructed)
     (simp add: backward_def backward_leg_def one_leg_solver_def one_knot_problem_def
      make_span_from_indices_def write_span_def assembleCondensedSystem_def Let_def
      resize_vec_def set_vec_def at_vec_def passing_backwardImpl_def passing_solve_def)

section \<open>The forward pass\<close>





end
